theory Spec2Isabelle
  imports
    Complex_Main
    "HOL-Library.Char_ord"
    "HOL-Library.List_Lexorder"
    "HOL-Library.Product_Lexorder"
    "HOL-Library.Multiset"
    "HOL-Library.Sublist"
begin

section \<open>Python values and exceptions\<close>

text \<open>
  The gateway passes dynamically typed values around: the envelope is a \<open>dict\<close>, its
  \<open>data\<close> and \<open>details\<close> are \<open>Any\<close>. The universe below covers \<open>None\<close>, booleans,
  integers, floats, strings, lists and dictionaries with string keys. Strings are
  sequences of code points below 256. A float is a finite double, given by the rational
  number it denotes (the two zeros are not told apart), an infinity or NaN.
\<close>

datatype pyfloat = Fin rat | PosInf | NegInf | NaN

datatype pyval =
    PNone
  | PBool bool
  | PInt int
  | PFloat pyfloat
  | PStr string
  | PList "pyval list"
  | PDict "(string \<times> pyval) list"

text \<open>Exceptions are values; \<open>PathResolutionError\<close> is the one class the repository declares
  (\<open>error_type\<close>, \<open>message\<close>, \<open>details\<close>).\<close>

datatype oserr = ENOENT | EEXIST | ENOTDIR | EISDIR | EOTHER

datatype exn =
    AssertionError string
  | TypeError string
  | ValueError string
  | RuntimeError string
  | ZeroDivisionError string
  | OSError oserr string
  | PathResolutionError string string "(string \<times> pyval) list"











section \<open>Envelope protocol (sky\_mcp/response.py)\<close>











text \<open>\<open>str(exc)\<close>: the message of an exception.\<close>

fun exn_str :: "exn \<Rightarrow> string" where
  "exn_str (AssertionError m) = m"
| "exn_str (TypeError m) = m"
| "exn_str (ValueError m) = m"
| "exn_str (RuntimeError m) = m"
| "exn_str (ZeroDivisionError m) = m"
| "exn_str (OSError e m) = m"
| "exn_str (PathResolutionError t m d) = m"

section \<open>Strings: whitespace, \<open>strip\<close>, \<open>split\<close>, \<open>int\<close>\<close>

text \<open>\<open>str.strip()\<close> removes the characters for which \<open>str.isspace\<close> holds; below 256
  these are the code points 9 to 13, 28 to 32, 133 and 160.\<close>

definition py_isspace :: "char \<Rightarrow> bool" where
  "py_isspace c = (of_char c \<in> {9, 10, 11, 12, 13, 28, 29, 30, 31, 32, 133, 160 :: nat})"

definition strip_with :: "(char \<Rightarrow> bool) \<Rightarrow> string \<Rightarrow> string" where
  "strip_with P s = rev (dropWhile P (rev (dropWhile P s)))"

definition strip :: "string \<Rightarrow> string" where
  "strip s = strip_with py_isspace s"

text \<open>\<open>s.split(sep)\<close> for a one-character separator: empty fields are kept.\<close>

fun split_on :: "char \<Rightarrow> string \<Rightarrow> string list" where
  "split_on sep [] = [[]]"
| "split_on sep (c # cs) =
     (if c = sep then [] # split_on sep cs
      else (case split_on sep cs of [] \<Rightarrow> [[c]] | x # xs \<Rightarrow> (c # x) # xs))"

text \<open>\<open>int(s)\<close> in base 10: surrounding whitespace (for \<open>int\<close>: 9 to 13, 32, 133, 160) is
  dropped, one sign is allowed, then digits with single underscores between digits.
  \<open>None\<close> stands for \<open>ValueError\<close>. The interpreter also refuses a text with more digits
  than \<open>sys.get_int_max_str_digits()\<close> (4300 by default, 0 for no limit): \<open>max_digits\<close>.\<close>

definition int_space :: "char \<Rightarrow> bool" where
  "int_space c = (of_char c \<in> {9, 10, 11, 12, 13, 32, 133, 160 :: nat})"

definition is_digit :: "char \<Rightarrow> bool" where
  "is_digit c = (48 \<le> (of_char c :: nat) \<and> (of_char c :: nat) \<le> 57)"

definition digit_val :: "char \<Rightarrow> nat" where
  "digit_val c = of_char c - 48"

fun int_digits :: "bool \<Rightarrow> string \<Rightarrow> nat \<Rightarrow> nat option" where
  "int_digits need [] acc = (if need then None else Some acc)"
| "int_digits need (c # cs) acc =
     (if is_digit c then int_digits False cs (10 * acc + digit_val c)
      else if c = CHR ''_'' \<and> \<not> need then int_digits True cs acc
      else None)"

definition int_unsigned :: "nat \<Rightarrow> string \<Rightarrow> nat option" where
  "int_unsigned max_digits t =
     (if max_digits \<noteq> 0 \<and> length (filter is_digit t) > max_digits then None
      else int_digits True t 0)"

definition py_int :: "nat \<Rightarrow> string \<Rightarrow> int option" where
  "py_int max_digits s =
     (case strip_with int_space s of
        [] \<Rightarrow> None
      | c # cs \<Rightarrow>
          if c = CHR ''-'' then map_option (\<lambda>n. - int n) (int_unsigned max_digits cs)
          else if c = CHR ''+'' then map_option int (int_unsigned max_digits cs)
          else map_option int (int_unsigned max_digits (c # cs)))"

section \<open>Path sandbox (sky\_mcp/paths.py)\<close>

text \<open>
  A resolved path is the list of its components below the root (\<open>[]\<close> is the root itself).
  \<open>PurePath.is_relative_to\<close> is lexical: the root's components are a prefix of the path's.
\<close>

type_synonym path = "string list"

definition str_of_path :: "path \<Rightarrow> string" where
  "str_of_path p = (if p = [] then ''/'' else concat (map (\<lambda>c. CHR ''/'' # c) p))"

definition is_relative_to :: "path \<Rightarrow> path \<Rightarrow> bool" where
  "is_relative_to p base = prefix base p"

text \<open>
  What the function asks of the interpreter and the operating system. Each field is the
  outcome of one library call: a value, or the exception the call raises.
  \<^item> \<open>expanduser s\<close>: \<open>Path(s).expanduser()\<close>, the expanded path text;
  \<^item> \<open>resolve c\<close>: \<open>Path.resolve(strict=False)\<close>;
  \<^item> \<open>path_exists\<close>, \<open>is_file\<close>: \<open>Path.exists()\<close>, \<open>Path.is_file()\<close>;
  \<^item> \<open>stat_size\<close>: \<open>Path.stat().st_size\<close>, or the text of the \<open>OSError\<close>;
  \<^item> \<open>getenv\<close>: \<open>os.getenv\<close>; \<open>pathsep\<close>: \<open>os.pathsep\<close>;
  \<^item> \<open>repo_root\<close>, \<open>assets_dir\<close>, \<open>cwd\<close>: \<open>Path(__file__).resolve().parents[1]\<close>,
    \<open>ASSETS_DIR\<close> and \<open>Path.cwd()\<close>, as path texts;
  \<^item> \<open>max_str_digits\<close>: the interpreter's digit limit for \<open>int(str)\<close>.
\<close>

record platform =
  expanduser :: "string \<Rightarrow> exn + string"
  resolve :: "string \<Rightarrow> exn + path"
  path_exists :: "path \<Rightarrow> exn + bool"
  is_file :: "path \<Rightarrow> exn + bool"
  stat_size :: "path \<Rightarrow> string + nat"
  getenv :: "string \<Rightarrow> string option"
  pathsep :: char
  repo_root :: string
  assets_dir :: string
  cwd :: string
  max_str_digits :: nat

definition DEFAULT_MAX_FILE_BYTES :: int where
  "DEFAULT_MAX_FILE_BYTES = 2000000"

definition parse_max_bytes :: "platform \<Rightarrow> int" where
  "parse_max_bytes pf =
     (case getenv pf ''SKY_MCP_MAX_FILE_BYTES'' of
        None \<Rightarrow> DEFAULT_MAX_FILE_BYTES
      | Some v \<Rightarrow>
          if v = [] then DEFAULT_MAX_FILE_BYTES
          else (case py_int (max_str_digits pf) v of
                  None \<Rightarrow> DEFAULT_MAX_FILE_BYTES
                | Some parsed \<Rightarrow> if parsed > 0 then parsed else DEFAULT_MAX_FILE_BYTES))"

definition default_allowed_roots :: "platform \<Rightarrow> string list" where
  "default_allowed_roots pf =
     [repo_root pf, assets_dir pf, cwd pf] @
     (case getenv pf ''SKY_MCP_ALLOWED_ROOTS'' of
        None \<Rightarrow> []
      | Some extra \<Rightarrow>
          if extra = [] then []
          else filter (\<lambda>raw. raw \<noteq> []) (map strip (split_on (pathsep pf) extra)))"

text \<open>\<open>Path(root).expanduser().resolve(strict=False)\<close> for one root, and the list
  comprehension over the roots: the first exception ends it.\<close>

definition normalize_path :: "platform \<Rightarrow> string \<Rightarrow> exn + path" where
  "normalize_path pf s = (case expanduser pf s of Inl e \<Rightarrow> Inl e | Inr c \<Rightarrow> resolve pf c)"

fun normalize_all :: "platform \<Rightarrow> string list \<Rightarrow> exn + path list" where
  "normalize_all pf [] = Inr []"
| "normalize_all pf (r # rs) =
     (case normalize_path pf r of
        Inl e \<Rightarrow> Inl e
      | Inr p \<Rightarrow> (case normalize_all pf rs of Inl e \<Rightarrow> Inl e | Inr ps \<Rightarrow> Inr (p # ps)))"

text \<open>Source line 86: the caller's limit when given, else the configured one.\<close>

definition effective_limit :: "platform \<Rightarrow> int option \<Rightarrow> int" where
  "effective_limit pf max_bytes =
     (case max_bytes of Some m \<Rightarrow> m | None \<Rightarrow> parse_max_bytes pf)"

text \<open>The checks of \<open>resolve_local_path\<close> after both the candidate and the roots are
  normalized (source lines 62 to 103).\<close>

definition check_resolved :: "platform \<Rightarrow> path \<Rightarrow> path list \<Rightarrow> int option \<Rightarrow> exn + path" where
  "check_resolved pf resolved resolved_roots max_bytes =
     (if \<not> (\<exists>base \<in> set resolved_roots. is_relative_to resolved base) then
        Inl (PathResolutionError ''permission_denied'' ''Path is outside allowed roots.''
               [(''path'', PStr (str_of_path resolved)),
                (''allowed_roots'', PList (map (\<lambda>r. PStr (str_of_path r)) resolved_roots))])
      else (case path_exists pf resolved of
        Inl e \<Rightarrow> Inl e
      | Inr False \<Rightarrow>
          Inl (PathResolutionError ''file_not_found'' ''File not found.''
                 [(''path'', PStr (str_of_path resolved))])
      | Inr True \<Rightarrow>
      (case is_file pf resolved of
        Inl e \<Rightarrow> Inl e
      | Inr False \<Rightarrow>
          Inl (PathResolutionError ''invalid_input'' ''Path is not a file.''
                 [(''path'', PStr (str_of_path resolved))])
      | Inr True \<Rightarrow>
      (let limit = effective_limit pf max_bytes in
       case stat_size pf resolved of
         Inl err \<Rightarrow>
           Inl (PathResolutionError ''runtime_error'' ''Unable to stat file.''
                  [(''path'', PStr (str_of_path resolved)), (''error'', PStr err)])
       | Inr sz \<Rightarrow>
           if int sz > limit then
             Inl (PathResolutionError ''file_too_large'' ''File exceeds size limit.''
                    [(''path'', PStr (str_of_path resolved)), (''size'', PInt (int sz)),
                     (''max_bytes'', PInt limit)])
           else Inr resolved))))"

text \<open>Source line 59: the caller's roots when given (an empty collection included), else
  the default set.\<close>

definition effective_roots :: "platform \<Rightarrow> string list option \<Rightarrow> string list" where
  "effective_roots pf allowed_roots =
     (case allowed_roots of Some rs \<Rightarrow> rs | None \<Rightarrow> default_allowed_roots pf)"

text \<open>\<open>resolve_local_path\<close>. Only \<open>Path(path_str).expanduser()\<close> sits inside the
  \<open>try\<close>; \<open>candidate.resolve(strict=False)\<close> and the normalization of the roots are
  outside, so what they raise leaves the function as it is.\<close>

definition resolve_local_path ::
  "platform \<Rightarrow> string \<Rightarrow> string list option \<Rightarrow> int option \<Rightarrow> exn + path" where
  "resolve_local_path pf path_str allowed_roots max_bytes =
     (if path_str = [] \<or> strip path_str = [] then
        Inl (PathResolutionError ''invalid_input'' ''Path is required.'' [])
      else (case expanduser pf path_str of
        Inl exc \<Rightarrow>
          Inl (PathResolutionError ''invalid_input'' ''Invalid path string.''
                 [(''error'', PStr (exn_str exc))])
      | Inr candidate \<Rightarrow>
      (case resolve pf candidate of
        Inl exc \<Rightarrow> Inl exc
      | Inr resolved \<Rightarrow>
      (let roots = effective_roots pf allowed_roots in
       case normalize_all pf roots of
         Inl exc \<Rightarrow> Inl exc
       | Inr resolved_roots \<Rightarrow> check_resolved pf resolved resolved_roots max_bytes))))"

subsection \<open>A POSIX platform without symbolic links\<close>

text \<open>
  A concrete platform, to run the sandbox on: the file system is a finite map from
  resolved paths to nodes, there are no symbolic links, so \<open>resolve\<close> is lexical (a
  relative path starts at the working directory, \<open>.\<close> is dropped, \<open>..\<close> goes up), and a
  path text with a NUL character makes \<open>resolve\<close> raise \<open>ValueError\<close>, as
  \<open>os.path.realpath\<close> does. \<open>~\<close> expands to the home directory; \<open>~user\<close> for an unknown
  user raises \<open>RuntimeError\<close>.
\<close>

datatype node = Dir | File string

definition path_parts :: "string \<Rightarrow> string list" where
  "path_parts s = filter (\<lambda>c. c \<noteq> [] \<and> c \<noteq> ''.'') (split_on CHR ''/'' s)"

fun walk :: "path \<Rightarrow> string list \<Rightarrow> path" where
  "walk p [] = p"
| "walk p (c # cs) = (if c = ''..'' then walk (butlast p) cs else walk (p @ [c]) cs)"

definition posix_resolve :: "string \<Rightarrow> string \<Rightarrow> exn + path" where
  "posix_resolve wd s =
     (if CHR 0x00 \<in> set s then Inl (ValueError ''embedded null byte'')
      else if s \<noteq> [] \<and> hd s = CHR ''/'' then Inr (walk [] (path_parts s))
      else Inr (walk (walk [] (path_parts wd)) (path_parts s)))"

definition posix_expanduser :: "string \<Rightarrow> string \<Rightarrow> exn + string" where
  "posix_expanduser home s =
     (case path_parts s of
        [] \<Rightarrow> Inr s
      | c # cs \<Rightarrow>
          if s \<noteq> [] \<and> hd s \<noteq> CHR ''/'' \<and> c \<noteq> [] \<and> hd c = CHR ''~'' then
            (if c = ''~'' then Inr (home @ concat (map (\<lambda>x. CHR ''/'' # x) cs))
             else Inl (RuntimeError ''Could not determine home directory.''))
          else Inr s)"

definition node_size :: "node \<Rightarrow> nat" where
  "node_size n = (case n of Dir \<Rightarrow> 4096 | File content \<Rightarrow> length content)"

definition posix :: "(path \<rightharpoonup> node) \<Rightarrow> (string \<rightharpoonup> string) \<Rightarrow> string \<Rightarrow> string \<Rightarrow> platform" where
  "posix tree env home wd =
     \<lparr> expanduser = posix_expanduser home,
       resolve = posix_resolve wd,
       path_exists = (\<lambda>p. Inr (p = [] \<or> tree p \<noteq> None)),
       is_file = (\<lambda>p. Inr (case tree p of Some (File c) \<Rightarrow> p \<noteq> [] | _ \<Rightarrow> False)),
       stat_size = (\<lambda>p. case tree p of Some n \<Rightarrow> Inr (node_size n) | None \<Rightarrow> Inl ''No such file or directory''),
       getenv = env,
       pathsep = CHR '':'',
       repo_root = ''/opt/sky'',
       assets_dir = ''/opt/sky/assets'',
       cwd = wd,
       max_str_digits = 4300 \<rparr>"

text \<open>A small tree: a data directory (the working directory) with a small file, a file
  whose name is one space, and a file of 2,000,001 bytes.\<close>

definition sandbox_tree :: "path \<rightharpoonup> node" where
  "sandbox_tree =
     [[''srv''] \<mapsto> Dir,
      [''srv'', ''data''] \<mapsto> Dir,
      [''srv'', ''data'', ''a.cif''] \<mapsto> File ''data_a'',
      [''srv'', ''data'', '' ''] \<mapsto> File ''data_blank'',
      [''srv'', ''data'', ''big.cif''] \<mapsto> File (replicate 2000001 (CHR ''0''))]"

definition sandbox_demo :: platform where
  "sandbox_demo = posix sandbox_tree Map.empty ''/home/u'' ''/srv/data''"

section \<open>Report files (sky\_mcp/report\_io.py)\<close>

text \<open>The character class \<open>[A-Za-z0-9_-]\<close> of \<open>_slugify\<close>.\<close>

definition slug_char :: "char \<Rightarrow> bool" where
  "slug_char c =
     ((65 \<le> (of_char c :: nat) \<and> (of_char c :: nat) \<le> 90)
      \<or> (97 \<le> (of_char c :: nat) \<and> (of_char c :: nat) \<le> 122)
      \<or> (48 \<le> (of_char c :: nat) \<and> (of_char c :: nat) \<le> 57)
      \<or> c = CHR ''_'' \<or> c = CHR ''-'')"

text \<open>\<open>re.sub(r"[^A-Za-z0-9_-]+", "_", text)\<close>: scanning from the left, each match of the
  pattern is a longest run of characters outside the class (the \<open>+\<close> is greedy), and the
  whole run is replaced by one underscore.\<close>

function re_sub_runs :: "string \<Rightarrow> string" where
  "re_sub_runs [] = []"
| "re_sub_runs (c # cs) =
     (if slug_char c then c # re_sub_runs cs
      else CHR ''_'' # re_sub_runs (dropWhile (\<lambda>d. \<not> slug_char d) cs))"
  by pat_completeness auto
termination
  by (relation "measure length") (auto simp: length_dropWhile_le less_Suc_eq_le)

text \<open>\<open>_slugify(text, max_len)\<close>: substitute, \<open>strip("_")\<close>, default to \<open>report\<close>, then
  slice to \<open>max_len\<close>.\<close>

definition slugify :: "string \<Rightarrow> nat \<Rightarrow> string" where
  "slugify text max_len =
     (let slug = strip_with (\<lambda>c. c = CHR ''_'') (re_sub_runs text);
          slug = (if slug = [] then ''report'' else slug)
      in take max_len slug)"

text \<open>\<open>reports_dir / filename\<close>: the text is split into components at \<open>/\<close>, empty and
  \<open>.\<close> components are dropped; an absolute text replaces the directory.\<close>

definition path_join :: "path \<Rightarrow> string \<Rightarrow> path" where
  "path_join d s = (if s \<noteq> [] \<and> hd s = CHR ''/'' then path_parts s else d @ path_parts s)"

text \<open>\<open>build_report_path(query, reports_dir, uuid_func)\<close>; \<open>uid\<close> is \<open>str(uuid_func())\<close>.\<close>

definition build_report_path :: "string \<Rightarrow> path \<Rightarrow> string \<Rightarrow> path" where
  "build_report_path query reports_dir uid =
     (let slug = slugify query 50;
          filename = slug @ ''_'' @ uid @ ''.html''
      in path_join reports_dir filename)"

text \<open>The slug in the words of the specification: every character outside the class
  becomes an underscore, leading and trailing underscores are trimmed, the result is cut to
  50 characters, and \<open>report\<close> stands in for an empty result.\<close>

definition spec_slug :: "string \<Rightarrow> string" where
  "spec_slug text =
     (let s = take 50 (strip_with (\<lambda>c. c = CHR ''_'')
                (map (\<lambda>c. if slug_char c then c else CHR ''_'') text))
      in if s = [] then ''report'' else s)"

text \<open>The same with runs: a character outside the class becomes an underscore only when
  the character before it was inside the class (or there is none); the flag tells whether
  the previous character was outside.\<close>

fun replace_runs :: "bool \<Rightarrow> string \<Rightarrow> string" where
  "replace_runs prev [] = []"
| "replace_runs prev (c # cs) =
     (if slug_char c then c # replace_runs False cs
      else if prev then replace_runs True cs
      else CHR ''_'' # replace_runs True cs)"

definition spec_slug_runs :: "string \<Rightarrow> string" where
  "spec_slug_runs text =
     (let s = take 50 (strip_with (\<lambda>c. c = CHR ''_'') (replace_runs False text))
      in if s = [] then ''report'' else s)"

fun no_adjacent_outside :: "string \<Rightarrow> bool" where
  "no_adjacent_outside (a # b # cs) =
     ((slug_char a \<or> slug_char b) \<and> no_adjacent_outside (b # cs))"
| "no_adjacent_outside cs = True"

section \<open>Atomic writer (sky\_mcp/report\_io.py)\<close>

text \<open>
  The file system that \<open>atomic_write_text\<close> changes: a finite map from paths to nodes
  (the root is always a directory) and the log of the system calls that succeeded, oldest
  first. A file holds its text; encoding to UTF-8 and newline translation are not
  modelled, nor is a write that fails half way.
\<close>

datatype syscall = Mkdir path | Create path | Write path string | Rename path path

record fs =
  nodes :: "path \<rightharpoonup> node"
  trace :: "syscall list"

definition node_at :: "fs \<Rightarrow> path \<Rightarrow> node option" where
  "node_at f p = (if p = [] then Some Dir else nodes f p)"

definition is_dir :: "fs \<Rightarrow> path \<Rightarrow> bool" where
  "is_dir f p = (node_at f p = Some Dir)"

text \<open>\<open>Path.parent\<close> (the root is its own parent), \<open>Path.name\<close> and \<open>Path.stem\<close>:
  with \<open>i = name.rfind('.')\<close>, the stem is \<open>name[:i]\<close> when \<open>0 < i < len(name) - 1\<close>,
  else the whole name.\<close>

definition parent :: "path \<Rightarrow> path" where
  "parent p = butlast p"

definition name_of :: "path \<Rightarrow> string" where
  "name_of p = (if p = [] then [] else last p)"

definition rfind_dot :: "string \<Rightarrow> nat option" where
  "rfind_dot name =
     (if CHR ''.'' \<in> set name
      then Some (length name - 1 - length (takeWhile (\<lambda>c. c \<noteq> CHR ''.'') (rev name)))
      else None)"

definition stem_of :: "string \<Rightarrow> string" where
  "stem_of name =
     (case rfind_dot name of
        None \<Rightarrow> name
      | Some i \<Rightarrow> if 0 < i \<and> i + 1 < length name then take i name else name)"

text \<open>\<open>os.mkdir\<close>.\<close>

definition os_mkdir :: "fs \<Rightarrow> path \<Rightarrow> exn + fs" where
  "os_mkdir f p =
     (if node_at f p \<noteq> None then Inl (OSError EEXIST ''File exists'')
      else (case node_at f (parent p) of
              None \<Rightarrow> Inl (OSError ENOENT ''No such file or directory'')
            | Some (File c) \<Rightarrow> Inl (OSError ENOTDIR ''Not a directory'')
            | Some Dir \<Rightarrow> Inr (f\<lparr>nodes := (nodes f)(p \<mapsto> Dir), trace := trace f @ [Mkdir p]\<rparr>)))"

fun is_enoent :: "exn \<Rightarrow> bool" where
  "is_enoent (OSError ENOENT m) = True"
| "is_enoent e = False"

fun is_eexist :: "exn \<Rightarrow> bool" where
  "is_eexist (OSError EEXIST m) = True"
| "is_eexist e = False"

text \<open>\<open>Path.mkdir(parents=False, exist_ok=True)\<close>: \<open>FileNotFoundError\<close> is re-raised, any
  other \<open>OSError\<close> is swallowed when the path is a directory.\<close>

definition mkdir_exist_ok :: "fs \<Rightarrow> path \<Rightarrow> exn + fs" where
  "mkdir_exist_ok f p =
     (case os_mkdir f p of
        Inr f' \<Rightarrow> Inr f'
      | Inl e \<Rightarrow> if is_enoent e then Inl e else if is_dir f p then Inr f else Inl e)"

text \<open>\<open>Path.mkdir(parents=True, exist_ok=True)\<close>: on \<open>FileNotFoundError\<close> the parent is
  made first (unless the path is its own parent), then the path itself.\<close>

function mkdir_parents :: "fs \<Rightarrow> path \<Rightarrow> exn + fs" where
  "mkdir_parents f p =
     (case os_mkdir f p of
        Inr f' \<Rightarrow> Inr f'
      | Inl e \<Rightarrow>
          if is_enoent e then
            (if parent p = p then Inl e
             else (case mkdir_parents f (parent p) of
                     Inl e' \<Rightarrow> Inl e'
                   | Inr f1 \<Rightarrow> mkdir_exist_ok f1 p))
          else if is_dir f p then Inr f
          else Inl e)"
  by pat_completeness auto
termination
  by (relation "measure (\<lambda>(f, p). length p)") (auto simp: parent_def butlast_conv_take)

declare mkdir_parents.simps [simp del]

text \<open>\<open>tempfile.NamedTemporaryFile(dir=..., prefix=..., suffix=..., delete=False)\<close>: the
  candidate names come from the random name sequence (eight characters from letters,
  digits and underscore), here the list \<open>names\<close>; at most \<open>tempfile.TMP_MAX\<close> of them
  are tried, the argument \<open>tmp_max\<close> (\<open>os.TMP_MAX\<close> where the platform has it, 238328
  on Linux, else 10000); a name that exists is skipped; the file is created exclusively
  and is empty.\<close>

definition os_open_excl :: "fs \<Rightarrow> path \<Rightarrow> exn + fs" where
  "os_open_excl f p =
     (if node_at f p \<noteq> None then Inl (OSError EEXIST ''File exists'')
      else (case node_at f (parent p) of
              None \<Rightarrow> Inl (OSError ENOENT ''No such file or directory'')
            | Some (File c) \<Rightarrow> Inl (OSError ENOTDIR ''Not a directory'')
            | Some Dir \<Rightarrow> Inr (f\<lparr>nodes := (nodes f)(p \<mapsto> File []), trace := trace f @ [Create p]\<rparr>)))"

fun mkstemp_inner :: "fs \<Rightarrow> path \<Rightarrow> string \<Rightarrow> string \<Rightarrow> string list \<Rightarrow> exn + (path \<times> fs)" where
  "mkstemp_inner f dir pre suf [] =
     Inl (OSError EEXIST ''No usable temporary file name found'')"
| "mkstemp_inner f dir pre suf (name # names) =
     (case os_open_excl f (dir @ [pre @ name @ suf]) of
        Inr f' \<Rightarrow> Inr (dir @ [pre @ name @ suf], f')
      | Inl e \<Rightarrow> if is_eexist e then mkstemp_inner f dir pre suf names else Inl e)"

text \<open>\<open>tmp.write(content)\<close> and the close at the end of the \<open>with\<close> block.\<close>

definition write_text :: "fs \<Rightarrow> path \<Rightarrow> string \<Rightarrow> fs" where
  "write_text f p content =
     f\<lparr>nodes := (nodes f)(p \<mapsto> File content), trace := trace f @ [Write p content]\<rparr>"

text \<open>\<open>os.replace(src, dst)\<close> for a regular file \<open>src\<close>, the only case the writer
  exercises (a directory source is reported as \<open>EOTHER\<close>): a directory at \<open>dst\<close> is
  refused, anything else at \<open>dst\<close> is replaced in one step.\<close>

definition os_replace :: "fs \<Rightarrow> path \<Rightarrow> path \<Rightarrow> exn + fs" where
  "os_replace f src dst =
     (case node_at f src of
        None \<Rightarrow> Inl (OSError ENOENT ''No such file or directory'')
      | Some Dir \<Rightarrow> Inl (OSError EOTHER ''directory source'')
      | Some (File c) \<Rightarrow>
          (case node_at f dst of
             Some Dir \<Rightarrow> Inl (OSError EISDIR ''Is a directory'')
           | _ \<Rightarrow>
             (case node_at f (parent dst) of
                None \<Rightarrow> Inl (OSError ENOENT ''No such file or directory'')
              | Some (File x) \<Rightarrow> Inl (OSError ENOTDIR ''Not a directory'')
              | Some Dir \<Rightarrow>
                  Inr (f\<lparr>nodes := ((nodes f)(src := None))(dst \<mapsto> File c),
                         trace := trace f @ [Rename src dst]\<rparr>))))"

definition atomic_write_text ::
  "fs \<Rightarrow> nat \<Rightarrow> string list \<Rightarrow> path \<Rightarrow> string \<Rightarrow> exn + fs" where
  "atomic_write_text f tmp_max names target_path content =
     (case mkdir_parents f (parent target_path) of
        Inl e \<Rightarrow> Inl e
      | Inr f1 \<Rightarrow>
          (case mkstemp_inner f1 (parent target_path)
                  (stem_of (name_of target_path) @ ''_'') ''.tmp'' (take tmp_max names) of
             Inl e \<Rightarrow> Inl e
           | Inr (temp_name, f2) \<Rightarrow>
               os_replace (write_text f2 temp_name content) temp_name target_path))"

text \<open>A file system is well formed when the parent of every node is a directory.\<close>

definition wf_fs :: "fs \<Rightarrow> bool" where
  "wf_fs f = (\<forall>p. node_at f p \<noteq> None \<longrightarrow> node_at f (parent p) = Some Dir)"

text \<open>A file system with the directory \<open>/tmp\<close> only.\<close>

definition writer_fs :: fs where
  "writer_fs = \<lparr>nodes = [[''tmp''] \<mapsto> Dir], trace = []\<rparr>"

text \<open>A file system where the report directory exists, with a report written earlier and
  the temporary file that a writer interrupted before its rename left behind.\<close>

definition writer_fs_used :: fs where
  "writer_fs_used =
     \<lparr>nodes = [[''tmp''] \<mapsto> Dir,
               [''tmp'', ''sky_reports''] \<mapsto> Dir,
               [''tmp'', ''sky_reports'', ''Fe2O3_fixed-uuid.html''] \<mapsto> File ''old'',
               [''tmp'', ''sky_reports'', ''Fe2O3_fixed-uuid_k3x9q2ab.tmp''] \<mapsto> File []],
      trace = []\<rparr>"

section \<open>Tool registry (sky\_mcp/server.py)\<close>

text \<open>A descriptor is the tuple (name, handler, description); the handler, a function of
  \<open>sky_mcp.tools\<close>, is represented by its qualified name.\<close>

type_synonym tool_def = "string \<times> string \<times> string"

definition TOOL_DEFS :: "tool_def list" where
  "TOOL_DEFS =
     [(''capabilities'', ''tools.capabilities'',
         ''Report available assets, env vars, and versions.''),
      (''search_similar_by_composition'', ''tools.search_similar_by_composition'',
         ''Find similar materials by composition.''),
      (''search_similar_by_structure_cif'', ''tools.search_similar_by_structure_cif'',
         ''Find similar materials by CIF text (canonical).''),
      (''search_similar_by_structure_path'', ''tools.search_similar_by_structure_path'',
         ''Find similar materials by CIF file path (local-only).''),
      (''read_cif'', ''tools.read_cif'', ''Read CIF text and return structure metadata.''),
      (''read_cif_path'', ''tools.read_cif_path'',
         ''Read CIF file path and return structure metadata (local-only).''),
      (''get_material_properties'', ''tools.get_material_properties'',
         ''Fetch Materials Project properties.''),
      (''get_synthesis_recipes'', ''tools.get_synthesis_recipes'',
         ''Retrieve synthesis recipes for a formula.''),
      (''analyze_synthesis_parameters'', ''tools.analyze_synthesis_parameters'',
         ''Extract synthesis parameters from text.''),
      (''recursive_synthesis_search'', ''tools.recursive_synthesis_search'',
         ''Recursive synthesis search using similarity neighbors.''),
      (''discover_synthesis_report'', ''tools.discover_synthesis_report'',
         ''Expensive, networked, nondeterministic synthesis report.''),
      (''self_check'', ''tools.self_check'', ''Run deterministic checks for MCP readiness.'')]"

text \<open>
  The transport backend's decorator factory, as \<open>_register_tools\<close> uses it, over a backend
  state \<open>'s\<close>:
  \<^item> \<open>accepts_name\<close>: the answer of \<open>_supports_named\<close> (\<open>name\<close> is a parameter of the
    factory; false when the signature cannot be inspected);
  \<^item> \<open>register_named name description func\<close>: \<open>factory(name=..., description=...)(func)\<close>;
  \<^item> \<open>register_plain func\<close>: \<open>factory()(func)\<close>.
\<close>

record 's backend =
  accepts_name :: bool
  register_named :: "string \<Rightarrow> string \<Rightarrow> string \<Rightarrow> 's \<Rightarrow> exn + 's"
  register_plain :: "string \<Rightarrow> 's \<Rightarrow> exn + 's"

text \<open>The body of the loop of \<open>_register_tools\<close> (build the decorator, apply it to the
  handler), the loop \<open>for name, func, description in ...\<close> with the list it runs over as
  an argument, and the function itself, which runs the loop over \<open>TOOL_DEFS\<close>.\<close>

fun register_one :: "'s backend \<Rightarrow> tool_def \<Rightarrow> 's \<Rightarrow> exn + 's" where
  "register_one b (name, func, description) st =
     (if accepts_name b then register_named b name description func st
      else register_plain b func st)"

fun register_each :: "'s backend \<Rightarrow> tool_def list \<Rightarrow> 's \<Rightarrow> exn + 's" where
  "register_each b [] st = Inr st"
| "register_each b (d # rest) st =
     (case register_one b d st of
        Inl e \<Rightarrow> Inl e
      | Inr st' \<Rightarrow> register_each b rest st')"

definition register_tools :: "'s backend \<Rightarrow> 's \<Rightarrow> exn + 's" where
  "register_tools b st = register_each b TOOL_DEFS st"

text \<open>A backend that accepts every registration and records the calls it receives.\<close>

definition recording :: "bool \<Rightarrow> ((string \<times> string) option \<times> string) list backend" where
  "recording named =
     \<lparr> accepts_name = named,
       register_named = (\<lambda>name description func st. Inr (st @ [(Some (name, description), func)])),
       register_plain = (\<lambda>func st. Inr (st @ [(None, func)])) \<rparr>"


text \<open>A backend whose decorator refuses a name that it has registered already.\<close>

definition refusing :: "((string \<times> string) option \<times> string) list backend" where
  "refusing =
     \<lparr> accepts_name = True,
       register_named = (\<lambda>name description func st.
         if name \<in> set (map fst (List.map_filter fst st))
         then Inl (ValueError (''Tool already exists: '' @ name))
         else Inr (st @ [(Some (name, description), func)])),
       register_plain = (\<lambda>func st. Inr (st @ [(None, func)])) \<rparr>"

section \<open>Properties of the envelope protocol\<close>















section \<open>Properties of the path sandbox\<close>

lemmas sandbox_eval =
  sandbox_demo_def posix_def resolve_local_path_def strip_def strip_with_def
  py_isspace_def posix_expanduser_def posix_resolve_def path_parts_def normalize_path_def
  check_resolved_def is_relative_to_def node_size_def str_of_path_def sandbox_tree_def
  effective_roots_def effective_limit_def parse_max_bytes_def default_allowed_roots_def
  DEFAULT_MAX_FILE_BYTES_def

lemma normalize_path_splits:
  "normalize_path pf s = Inr r \<Longrightarrow> \<exists>c. expanduser pf s = Inr c \<and> resolve pf c = Inr r"
  by (auto simp: normalize_path_def split: sum.splits)

lemma reaches_check:
  assumes "path_str \<noteq> []" "strip path_str \<noteq> []"
    and "normalize_path pf path_str = Inr resolved"
    and "normalize_all pf (effective_roots pf allowed_roots) = Inr rr"
  shows "resolve_local_path pf path_str allowed_roots max_bytes
           = check_resolved pf resolved rr max_bytes"
  using assms normalize_path_splits [OF assms(3)]
  by (auto simp: resolve_local_path_def)

lemma resolve_success_cases:
  assumes "resolve_local_path pf s ar mb = Inr r"
  shows "s \<noteq> [] \<and> strip s \<noteq> [] \<and> normalize_path pf s = Inr r \<and>
     (\<exists>rr. normalize_all pf (effective_roots pf ar) = Inr rr \<and>
           (\<exists>base \<in> set rr. is_relative_to r base)) \<and>
     path_exists pf r = Inr True \<and> is_file pf r = Inr True \<and>
     (\<exists>sz. stat_size pf r = Inr sz \<and> int sz \<le> effective_limit pf mb)"
  using assms
  by (auto simp: resolve_local_path_def check_resolved_def normalize_path_def Let_def
      split: if_splits sum.splits bool.splits)

lemma normalize_path_cong:
  "expanduser pf' = expanduser pf \<Longrightarrow> resolve pf' = resolve pf \<Longrightarrow>
   normalize_path pf' s = normalize_path pf s"
  by (simp add: normalize_path_def split: sum.splits)

lemma normalize_all_cong:
  "expanduser pf' = expanduser pf \<Longrightarrow> resolve pf' = resolve pf \<Longrightarrow>
   normalize_all pf' xs = normalize_all pf xs"
  by (induction xs) (simp_all add: normalize_path_def split: sum.splits)

lemma effective_roots_cong:
  assumes "getenv pf' ''SKY_MCP_ALLOWED_ROOTS'' = getenv pf ''SKY_MCP_ALLOWED_ROOTS''"
    and "pathsep pf' = pathsep pf" "repo_root pf' = repo_root pf"
    and "assets_dir pf' = assets_dir pf" "cwd pf' = cwd pf"
  shows "effective_roots pf' ar = effective_roots pf ar"
  using assms by (simp add: effective_roots_def default_allowed_roots_def split: option.splits)

lemma effective_limit_cong:
  assumes "getenv pf' ''SKY_MCP_MAX_FILE_BYTES'' = getenv pf ''SKY_MCP_MAX_FILE_BYTES''"
    and "max_str_digits pf' = max_str_digits pf"
  shows "effective_limit pf' mb = effective_limit pf mb"
  using assms by (simp add: effective_limit_def parse_max_bytes_def split: option.splits)

lemma denied_when_outside:
  assumes "\<not> (\<exists>base \<in> set rr. is_relative_to resolved base)"
  shows "check_resolved pf resolved rr max_bytes =
     Inl (PathResolutionError ''permission_denied'' ''Path is outside allowed roots.''
            [(''path'', PStr (str_of_path resolved)),
             (''allowed_roots'', PList (map (\<lambda>r. PStr (str_of_path r)) rr))])"
  using assms by (simp add: check_resolved_def)

text \<open>
  Claim C1, as the code has it. For every path string that is not blank (not empty and
  not whitespace only), whose normalized form lies under none of the normalized allowed
  roots, \<open>resolve_local_path\<close> raises \<open>PathResolutionError\<close> of type \<open>permission_denied\<close>
  and returns no path; the details carry the rejected path and the full list of
  normalized roots. Containment is decided before existence: the outcome is the same
  whatever \<open>exists\<close>, \<open>is_file\<close> and \<open>stat\<close> would answer. (A blank string is rejected
  earlier, as \<open>invalid_input\<close>.)
\<close>

theorem outside_roots_permission_denied:
  assumes "path_str \<noteq> []" and "strip path_str \<noteq> []"
    and "normalize_path pf path_str = Inr resolved"
    and "normalize_all pf (effective_roots pf allowed_roots) = Inr rr"
    and "\<not> (\<exists>base \<in> set rr. is_relative_to resolved base)"
  shows "resolve_local_path pf path_str allowed_roots max_bytes =
           Inl (PathResolutionError ''permission_denied'' ''Path is outside allowed roots.''
                  [(''path'', PStr (str_of_path resolved)),
                   (''allowed_roots'', PList (map (\<lambda>r. PStr (str_of_path r)) rr))])
         \<and> resolve_local_path (pf\<lparr>path_exists := ex, is_file := isf, stat_size := st\<rparr>)
             path_str allowed_roots max_bytes =
           Inl (PathResolutionError ''permission_denied'' ''Path is outside allowed roots.''
                  [(''path'', PStr (str_of_path resolved)),
                   (''allowed_roots'', PList (map (\<lambda>r. PStr (str_of_path r)) rr))])"
proof
  show "resolve_local_path pf path_str allowed_roots max_bytes =
           Inl (PathResolutionError ''permission_denied'' ''Path is outside allowed roots.''
                  [(''path'', PStr (str_of_path resolved)),
                   (''allowed_roots'', PList (map (\<lambda>r. PStr (str_of_path r)) rr))])"
    using reaches_check [OF assms(1-4)] denied_when_outside [OF assms(5)] by simp
next
  let ?pf = "pf\<lparr>path_exists := ex, is_file := isf, stat_size := st\<rparr>"
  have n: "normalize_path ?pf path_str = Inr resolved"
    using assms(3) normalize_path_cong [of ?pf pf path_str] by simp
  have r: "effective_roots ?pf allowed_roots = effective_roots pf allowed_roots"
    by (rule effective_roots_cong) simp_all
  have a: "normalize_all ?pf (effective_roots ?pf allowed_roots) = Inr rr"
    using assms(4) r normalize_all_cong [of ?pf pf "effective_roots pf allowed_roots"] by simp
  show "resolve_local_path ?pf path_str allowed_roots max_bytes =
           Inl (PathResolutionError ''permission_denied'' ''Path is outside allowed roots.''
                  [(''path'', PStr (str_of_path resolved)),
                   (''allowed_roots'', PList (map (\<lambda>r. PStr (str_of_path r)) rr))])"
    using reaches_check [OF assms(1,2) n a] denied_when_outside [OF assms(5)] by simp
qed

theorem outside_roots_permission_denied_witness:
  "normalize_path sandbox_demo ''../../etc/passwd'' = Inr [''etc'', ''passwd'']
   \<and> normalize_all sandbox_demo (effective_roots sandbox_demo None)
       = Inr [[''opt'', ''sky''], [''opt'', ''sky'', ''assets''], [''srv'', ''data'']]
   \<and> path_exists sandbox_demo [''etc'', ''passwd''] = Inr False
   \<and> resolve_local_path sandbox_demo ''../../etc/passwd'' None None =
       Inl (PathResolutionError ''permission_denied'' ''Path is outside allowed roots.''
              [(''path'', PStr ''/etc/passwd''),
               (''allowed_roots'',
                PList [PStr ''/opt/sky'', PStr ''/opt/sky/assets'', PStr ''/srv/data''])])"
proof -
  have a: "''../../etc/passwd'' \<noteq> []" "strip ''../../etc/passwd'' \<noteq> []"
    by (simp_all add: strip_def strip_with_def py_isspace_def)
  have b: "normalize_path sandbox_demo ''../../etc/passwd'' = Inr [''etc'', ''passwd'']"
    by (simp add: sandbox_eval)
  have c: "normalize_all sandbox_demo (effective_roots sandbox_demo None)
       = Inr [[''opt'', ''sky''], [''opt'', ''sky'', ''assets''], [''srv'', ''data'']]"
    by (simp add: sandbox_eval)
  have d: "\<not> (\<exists>base \<in> set [[''opt'', ''sky''], [''opt'', ''sky'', ''assets''], [''srv'', ''data'']].
              is_relative_to [''etc'', ''passwd''] base)"
    by (simp add: is_relative_to_def)
  have e: "path_exists sandbox_demo [''etc'', ''passwd''] = Inr False"
    by (simp add: sandbox_eval)
  from outside_roots_permission_denied [OF a b c d, of None]
  have "resolve_local_path sandbox_demo ''../../etc/passwd'' None None =
       Inl (PathResolutionError ''permission_denied'' ''Path is outside allowed roots.''
              [(''path'', PStr ''/etc/passwd''),
               (''allowed_roots'',
                PList [PStr ''/opt/sky'', PStr ''/opt/sky/assets'', PStr ''/srv/data''])])"
    by (simp add: str_of_path_def)
  with b c e show ?thesis by blast
qed

text \<open>The claim as stated fails on a blank string: the file name consisting of one space
  normalizes to a path outside the only allowed root, and the outcome is
  \<open>invalid_input\<close>, not \<open>permission_denied\<close>.\<close>

theorem blank_outside_roots_counterexample:
  "normalize_path sandbox_demo '' '' = Inr [''srv'', ''data'', '' '']
   \<and> normalize_all sandbox_demo (effective_roots sandbox_demo (Some [''/opt''])) = Inr [[''opt'']]
   \<and> \<not> is_relative_to [''srv'', ''data'', '' ''] [''opt'']
   \<and> resolve_local_path sandbox_demo '' '' (Some [''/opt'']) None =
       Inl (PathResolutionError ''invalid_input'' ''Path is required.'' [])"
proof (intro conjI)
  show "normalize_path sandbox_demo '' '' = Inr [''srv'', ''data'', '' '']"
    by (simp add: sandbox_eval)
  show "normalize_all sandbox_demo (effective_roots sandbox_demo (Some [''/opt''])) = Inr [[''opt'']]"
    by (simp add: sandbox_eval)
  show "\<not> is_relative_to [''srv'', ''data'', '' ''] [''opt'']"
    by (simp add: is_relative_to_def)
  show "resolve_local_path sandbox_demo '' '' (Some [''/opt'']) None =
       Inl (PathResolutionError ''invalid_input'' ''Path is required.'' [])"
    by (simp add: resolve_local_path_def strip_def strip_with_def py_isspace_def)
qed

lemma too_large_when_over:
  assumes "\<exists>base \<in> set rr. is_relative_to resolved base"
    and "path_exists pf resolved = Inr True" and "is_file pf resolved = Inr True"
    and "stat_size pf resolved = Inr sz" and "int sz > effective_limit pf max_bytes"
  shows "check_resolved pf resolved rr max_bytes =
     Inl (PathResolutionError ''file_too_large'' ''File exceeds size limit.''
            [(''path'', PStr (str_of_path resolved)), (''size'', PInt (int sz)),
             (''max_bytes'', PInt (effective_limit pf max_bytes))])"
  using assms by (simp add: check_resolved_def Let_def)

lemma py_int_empty: "py_int k [] = None"
  by (simp add: py_int_def strip_with_def)

lemma parse_max_bytes_eq:
  "parse_max_bytes pf =
     (case getenv pf ''SKY_MCP_MAX_FILE_BYTES'' of
        None \<Rightarrow> 2000000
      | Some v \<Rightarrow> (case py_int (max_str_digits pf) v of
                    None \<Rightarrow> 2000000
                  | Some n \<Rightarrow> if 0 < n then n else 2000000))"
  by (simp add: parse_max_bytes_def DEFAULT_MAX_FILE_BYTES_def py_int_empty split: option.splits)

text \<open>
  Claim C4, as the code has it. The byte ceiling is the caller's \<open>max_bytes\<close> when given,
  else the value of \<open>SKY_MCP_MAX_FILE_BYTES\<close> when \<open>int\<close> parses it to a positive
  integer, else 2,000,000 (an unset, empty, non-numeric or non-positive value gives the
  default). For every path string that is not blank and normalizes to an existing regular
  file under an allowed root whose size exceeds the ceiling, resolution raises
  \<open>file_too_large\<close> with the size and the limit in the details. (A blank string is
  rejected earlier, as \<open>invalid_input\<close>.)
\<close>

theorem oversize_file_too_large:
  "effective_limit pf (Some m) = m
   \<and> effective_limit pf None =
       (case getenv pf ''SKY_MCP_MAX_FILE_BYTES'' of
          None \<Rightarrow> 2000000
        | Some v \<Rightarrow> (case py_int (max_str_digits pf) v of
                      None \<Rightarrow> 2000000
                    | Some n \<Rightarrow> if 0 < n then n else 2000000))
   \<and> (path_str \<noteq> [] \<and> strip path_str \<noteq> []
        \<and> normalize_path pf path_str = Inr resolved
        \<and> normalize_all pf (effective_roots pf allowed_roots) = Inr rr
        \<and> (\<exists>base \<in> set rr. is_relative_to resolved base)
        \<and> path_exists pf resolved = Inr True \<and> is_file pf resolved = Inr True
        \<and> stat_size pf resolved = Inr sz \<and> int sz > effective_limit pf max_bytes
       \<longrightarrow> resolve_local_path pf path_str allowed_roots max_bytes =
            Inl (PathResolutionError ''file_too_large'' ''File exceeds size limit.''
                   [(''path'', PStr (str_of_path resolved)), (''size'', PInt (int sz)),
                    (''max_bytes'', PInt (effective_limit pf max_bytes))]))"
proof (intro conjI impI)
  show "effective_limit pf (Some m) = m"
    by (simp add: effective_limit_def)
  show "effective_limit pf None =
       (case getenv pf ''SKY_MCP_MAX_FILE_BYTES'' of
          None \<Rightarrow> 2000000
        | Some v \<Rightarrow> (case py_int (max_str_digits pf) v of
                      None \<Rightarrow> 2000000
                    | Some n \<Rightarrow> if 0 < n then n else 2000000))"
    by (simp add: effective_limit_def parse_max_bytes_eq)
next
  assume h: "path_str \<noteq> [] \<and> strip path_str \<noteq> []
        \<and> normalize_path pf path_str = Inr resolved
        \<and> normalize_all pf (effective_roots pf allowed_roots) = Inr rr
        \<and> (\<exists>base \<in> set rr. is_relative_to resolved base)
        \<and> path_exists pf resolved = Inr True \<and> is_file pf resolved = Inr True
        \<and> stat_size pf resolved = Inr sz \<and> int sz > effective_limit pf max_bytes"
  then have "resolve_local_path pf path_str allowed_roots max_bytes
               = check_resolved pf resolved rr max_bytes"
    using reaches_check [of path_str pf resolved allowed_roots rr max_bytes] by blast
  moreover have "check_resolved pf resolved rr max_bytes =
     Inl (PathResolutionError ''file_too_large'' ''File exceeds size limit.''
            [(''path'', PStr (str_of_path resolved)), (''size'', PInt (int sz)),
             (''max_bytes'', PInt (effective_limit pf max_bytes))])"
    using h too_large_when_over [of rr resolved pf sz max_bytes] by blast
  ultimately show "resolve_local_path pf path_str allowed_roots max_bytes =
            Inl (PathResolutionError ''file_too_large'' ''File exceeds size limit.''
                   [(''path'', PStr (str_of_path resolved)), (''size'', PInt (int sz)),
                    (''max_bytes'', PInt (effective_limit pf max_bytes))])"
    by simp
qed

lemmas int_eval = py_int_def strip_with_def int_space_def int_unsigned_def is_digit_def
  digit_val_def

theorem oversize_file_too_large_witness:
  "effective_limit sandbox_demo None = 2000000
   \<and> stat_size sandbox_demo [''srv'', ''data'', ''big.cif''] = Inr 2000001
   \<and> resolve_local_path sandbox_demo ''big.cif'' None None =
       Inl (PathResolutionError ''file_too_large'' ''File exceeds size limit.''
              [(''path'', PStr ''/srv/data/big.cif''), (''size'', PInt 2000001),
               (''max_bytes'', PInt 2000000)])
   \<and> effective_limit (sandbox_demo\<lparr>getenv := [''SKY_MCP_MAX_FILE_BYTES'' \<mapsto> ''5'']\<rparr>) None = 5
   \<and> effective_limit (sandbox_demo\<lparr>getenv := [''SKY_MCP_MAX_FILE_BYTES'' \<mapsto> ''-3'']\<rparr>) None = 2000000
   \<and> effective_limit (sandbox_demo\<lparr>getenv := [''SKY_MCP_MAX_FILE_BYTES'' \<mapsto> ''abc'']\<rparr>) None = 2000000
   \<and> effective_limit sandbox_demo (Some 7) = 7"
proof -
  note t = oversize_file_too_large
    [of sandbox_demo _ "''big.cif''" "[''srv'', ''data'', ''big.cif'']" None
        "[[''opt'', ''sky''], [''opt'', ''sky'', ''assets''], [''srv'', ''data'']]" 2000001 None]
  have g: "getenv sandbox_demo ''SKY_MCP_MAX_FILE_BYTES'' = None"
    by (simp add: sandbox_demo_def posix_def)
  have l: "effective_limit sandbox_demo None = 2000000"
    using t g by simp
  have a: "''big.cif'' \<noteq> []" "strip ''big.cif'' \<noteq> []"
    by (simp_all add: strip_def strip_with_def py_isspace_def)
  have b: "normalize_path sandbox_demo ''big.cif'' = Inr [''srv'', ''data'', ''big.cif'']"
    by (simp add: sandbox_eval)
  have c: "normalize_all sandbox_demo (effective_roots sandbox_demo None)
       = Inr [[''opt'', ''sky''], [''opt'', ''sky'', ''assets''], [''srv'', ''data'']]"
    by (simp add: sandbox_eval)
  have d: "\<exists>base \<in> set [[''opt'', ''sky''], [''opt'', ''sky'', ''assets''], [''srv'', ''data'']].
              is_relative_to [''srv'', ''data'', ''big.cif''] base"
    by (simp add: is_relative_to_def)
  have e: "path_exists sandbox_demo [''srv'', ''data'', ''big.cif''] = Inr True"
    by (simp add: sandbox_demo_def posix_def sandbox_tree_def)
  have f: "is_file sandbox_demo [''srv'', ''data'', ''big.cif''] = Inr True"
    by (simp add: sandbox_demo_def posix_def sandbox_tree_def)
  have s: "stat_size sandbox_demo [''srv'', ''data'', ''big.cif''] = Inr 2000001"
    by (simp add: sandbox_demo_def posix_def sandbox_tree_def node_size_def)
  have o: "int 2000001 > effective_limit sandbox_demo None"
    using l by simp
  from t a b c d e f s o
  have r: "resolve_local_path sandbox_demo ''big.cif'' None None =
       Inl (PathResolutionError ''file_too_large'' ''File exceeds size limit.''
              [(''path'', PStr (str_of_path [''srv'', ''data'', ''big.cif''])),
               (''size'', PInt (int 2000001)),
               (''max_bytes'', PInt (effective_limit sandbox_demo None))])"
    by blast
  have r': "resolve_local_path sandbox_demo ''big.cif'' None None =
       Inl (PathResolutionError ''file_too_large'' ''File exceeds size limit.''
              [(''path'', PStr ''/srv/data/big.cif''), (''size'', PInt 2000001),
               (''max_bytes'', PInt 2000000)])"
    using r l by (simp add: str_of_path_def)
  have v5: "effective_limit (sandbox_demo\<lparr>getenv := [''SKY_MCP_MAX_FILE_BYTES'' \<mapsto> ''5'']\<rparr>) None = 5"
    by (simp add: effective_limit_def parse_max_bytes_eq sandbox_demo_def posix_def int_eval)
  have vm: "effective_limit (sandbox_demo\<lparr>getenv := [''SKY_MCP_MAX_FILE_BYTES'' \<mapsto> ''-3'']\<rparr>) None = 2000000"
    by (simp add: effective_limit_def parse_max_bytes_eq sandbox_demo_def posix_def int_eval)
  have va: "effective_limit (sandbox_demo\<lparr>getenv := [''SKY_MCP_MAX_FILE_BYTES'' \<mapsto> ''abc'']\<rparr>) None = 2000000"
    by (simp add: effective_limit_def parse_max_bytes_eq sandbox_demo_def posix_def int_eval)
  have v7: "effective_limit sandbox_demo (Some 7) = 7"
    by (simp add: effective_limit_def)
  from l s r' v5 vm va v7 show ?thesis by blast
qed

text \<open>The claim as stated fails on a blank string: the file whose name is one space lies
  under the allowed root \<open>/srv\<close>, is a regular file of 10 bytes, over the ceiling of 2,
  and the outcome is \<open>invalid_input\<close>, not \<open>file_too_large\<close>.\<close>

theorem blank_oversize_counterexample:
  "normalize_path sandbox_demo '' '' = Inr [''srv'', ''data'', '' '']
   \<and> normalize_all sandbox_demo (effective_roots sandbox_demo (Some [''/srv''])) = Inr [[''srv'']]
   \<and> is_relative_to [''srv'', ''data'', '' ''] [''srv'']
   \<and> path_exists sandbox_demo [''srv'', ''data'', '' ''] = Inr True
   \<and> is_file sandbox_demo [''srv'', ''data'', '' ''] = Inr True
   \<and> stat_size sandbox_demo [''srv'', ''data'', '' ''] = Inr 10
   \<and> effective_limit sandbox_demo (Some 2) = 2
   \<and> resolve_local_path sandbox_demo '' '' (Some [''/srv'']) (Some 2) =
       Inl (PathResolutionError ''invalid_input'' ''Path is required.'' [])"
proof (intro conjI)
  show "normalize_path sandbox_demo '' '' = Inr [''srv'', ''data'', '' '']"
    by (simp add: sandbox_eval)
  show "normalize_all sandbox_demo (effective_roots sandbox_demo (Some [''/srv''])) = Inr [[''srv'']]"
    by (simp add: sandbox_eval)
  show "is_relative_to [''srv'', ''data'', '' ''] [''srv'']"
    by (simp add: is_relative_to_def)
  show "path_exists sandbox_demo [''srv'', ''data'', '' ''] = Inr True"
    by (simp add: sandbox_demo_def posix_def sandbox_tree_def)
  show "is_file sandbox_demo [''srv'', ''data'', '' ''] = Inr True"
    by (simp add: sandbox_demo_def posix_def sandbox_tree_def)
  show "stat_size sandbox_demo [''srv'', ''data'', '' ''] = Inr 10"
    by (simp add: sandbox_demo_def posix_def sandbox_tree_def node_size_def)
  show "effective_limit sandbox_demo (Some 2) = 2"
    by (simp add: effective_limit_def)
  show "resolve_local_path sandbox_demo '' '' (Some [''/srv'']) (Some 2) =
       Inl (PathResolutionError ''invalid_input'' ''Path is required.'' [])"
    by (simp add: resolve_local_path_def strip_def strip_with_def py_isspace_def)
qed

lemma expanduser_error_invalid_input:
  assumes "path_str \<noteq> []" "strip path_str \<noteq> []" "expanduser pf path_str = Inl exc"
  shows "resolve_local_path pf path_str allowed_roots max_bytes =
     Inl (PathResolutionError ''invalid_input'' ''Invalid path string.''
            [(''error'', PStr (exn_str exc))])"
  using assms by (simp add: resolve_local_path_def)

lemma resolve_error_propagates:
  assumes "path_str \<noteq> []" "strip path_str \<noteq> []" "expanduser pf path_str = Inr c"
    and "resolve pf c = Inl exc"
  shows "resolve_local_path pf path_str allowed_roots max_bytes = Inl exc"
  using assms by (simp add: resolve_local_path_def)

text \<open>
  Claim C6. The claim says that a path string on which normalization throws yields
  \<open>invalid_input\<close> and that nothing else escapes. In the code only \<open>expanduser\<close> is
  guarded: on a path text with a NUL character between two letters
  \<open>expanduser\<close> returns the text, \<open>resolve\<close> raises \<open>ValueError\<close>, and that
  \<open>ValueError\<close> leaves \<open>resolve_local_path\<close> untranslated.
\<close>

theorem resolve_failure_escapes_untyped:
  "strip [CHR ''a'', CHR 0x00, CHR ''b''] = [CHR ''a'', CHR 0x00, CHR ''b'']
   \<and> expanduser sandbox_demo [CHR ''a'', CHR 0x00, CHR ''b''] = Inr [CHR ''a'', CHR 0x00, CHR ''b'']
   \<and> resolve sandbox_demo [CHR ''a'', CHR 0x00, CHR ''b''] = Inl (ValueError ''embedded null byte'')
   \<and> resolve_local_path sandbox_demo [CHR ''a'', CHR 0x00, CHR ''b''] None None
       = Inl (ValueError ''embedded null byte'')"
proof (intro conjI)
  show "strip [CHR ''a'', CHR 0x00, CHR ''b''] = [CHR ''a'', CHR 0x00, CHR ''b'']"
    by (simp add: strip_def strip_with_def py_isspace_def)
  show "expanduser sandbox_demo [CHR ''a'', CHR 0x00, CHR ''b''] = Inr [CHR ''a'', CHR 0x00, CHR ''b'']"
    by (simp add: sandbox_demo_def posix_def posix_expanduser_def path_parts_def)
  show "resolve sandbox_demo [CHR ''a'', CHR 0x00, CHR ''b''] = Inl (ValueError ''embedded null byte'')"
    by (simp add: sandbox_demo_def posix_def posix_resolve_def)
  show "resolve_local_path sandbox_demo [CHR ''a'', CHR 0x00, CHR ''b''] None None
       = Inl (ValueError ''embedded null byte'')"
    by (simp add: sandbox_eval)
qed

lemma check_resolved_accepts:
  assumes "\<exists>base \<in> set rr. is_relative_to r base"
    and "path_exists pf r = Inr True" and "is_file pf r = Inr True"
    and "stat_size pf r = Inr sz" and "int sz \<le> effective_limit pf mb"
  shows "check_resolved pf r rr mb = Inr r"
  using assms by (simp add: check_resolved_def Let_def)

text \<open>
  Claim C9. Resolution is a function of its arguments and of what it reads from the file
  system and the environment. When a call on a path succeeds with \<open>r\<close>, a second call
  with the same arguments, made in any state \<open>pf'\<close> that answers as the first state on
  what the function reads (home expansion and path resolution, existence, kind and size
  of \<open>r\<close>, the two environment variables, the path separator, the three default roots and
  the digit limit of \<open>int\<close>), succeeds with the same \<open>r\<close>; in particular a second call
  in the unchanged state does.
\<close>

theorem resolve_local_path_deterministic:
  assumes "resolve_local_path pf s ar mb = Inr r"
    and "expanduser pf' = expanduser pf" and "resolve pf' = resolve pf"
    and "path_exists pf' r = path_exists pf r" and "is_file pf' r = is_file pf r"
    and "stat_size pf' r = stat_size pf r"
    and "getenv pf' ''SKY_MCP_ALLOWED_ROOTS'' = getenv pf ''SKY_MCP_ALLOWED_ROOTS''"
    and "getenv pf' ''SKY_MCP_MAX_FILE_BYTES'' = getenv pf ''SKY_MCP_MAX_FILE_BYTES''"
    and "pathsep pf' = pathsep pf" and "repo_root pf' = repo_root pf"
    and "assets_dir pf' = assets_dir pf" and "cwd pf' = cwd pf"
    and "max_str_digits pf' = max_str_digits pf"
  shows "resolve_local_path pf' s ar mb = Inr r"
proof -
  from resolve_success_cases [OF assms(1)]
  obtain rr sz where nb: "s \<noteq> []" "strip s \<noteq> []"
    and n: "normalize_path pf s = Inr r"
    and a: "normalize_all pf (effective_roots pf ar) = Inr rr"
    and w: "\<exists>base \<in> set rr. is_relative_to r base"
    and e: "path_exists pf r = Inr True" and f: "is_file pf r = Inr True"
    and st: "stat_size pf r = Inr sz" and le: "int sz \<le> effective_limit pf mb"
    by blast
  have n': "normalize_path pf' s = Inr r"
    using n normalize_path_cong [OF assms(2,3), of s] by simp
  have er: "effective_roots pf' ar = effective_roots pf ar"
    using assms(7,9,10,11,12) by (rule effective_roots_cong)
  have a': "normalize_all pf' (effective_roots pf' ar) = Inr rr"
    using a er normalize_all_cong [OF assms(2,3), of "effective_roots pf ar"] by simp
  have el: "effective_limit pf' mb = effective_limit pf mb"
    using assms(8,13) by (rule effective_limit_cong)
  have "check_resolved pf' r rr mb = Inr r"
    using w e f st le el assms(4,5,6) check_resolved_accepts [of rr r pf' sz mb] by simp
  then show ?thesis
    using reaches_check [OF nb n' a', of mb] by simp
qed

theorem resolve_local_path_deterministic_witness:
  "resolve_local_path sandbox_demo ''a.cif'' None None = Inr [''srv'', ''data'', ''a.cif'']
   \<and> resolve_local_path (sandbox_demo\<lparr>getenv := [''HOME'' \<mapsto> ''/root'']\<rparr>) ''a.cif'' None None
       = Inr [''srv'', ''data'', ''a.cif'']"
proof -
  let ?pf' = "sandbox_demo\<lparr>getenv := [''HOME'' \<mapsto> ''/root'']\<rparr>"
  have a: "resolve_local_path sandbox_demo ''a.cif'' None None = Inr [''srv'', ''data'', ''a.cif'']"
    by (simp add: sandbox_eval)
  have g1: "getenv ?pf' ''SKY_MCP_ALLOWED_ROOTS'' = getenv sandbox_demo ''SKY_MCP_ALLOWED_ROOTS''"
    by (simp add: sandbox_demo_def posix_def)
  have g2: "getenv ?pf' ''SKY_MCP_MAX_FILE_BYTES'' = getenv sandbox_demo ''SKY_MCP_MAX_FILE_BYTES''"
    by (simp add: sandbox_demo_def posix_def)
  have "resolve_local_path ?pf' ''a.cif'' None None = Inr [''srv'', ''data'', ''a.cif'']"
    by (rule resolve_local_path_deterministic [OF a _ _ _ _ _ g1 g2]) simp_all
  with a show ?thesis by blast
qed

text \<open>
  Claim C10. With an empty collection passed as \<open>allowed_roots\<close> the call never returns a
  path: the empty collection is used as it is (the default roots replace an absent
  argument only), so a blank string fails with \<open>invalid_input\<close> and every string that is
  not blank and normalizes fails with \<open>permission_denied\<close>, the reported root list being
  empty.
\<close>

theorem empty_roots_never_resolve:
  "(\<forall>r. resolve_local_path pf s (Some []) mb \<noteq> Inr r)
   \<and> effective_roots pf (Some []) = []
   \<and> (s = [] \<or> strip s = [] \<longrightarrow>
        resolve_local_path pf s (Some []) mb =
          Inl (PathResolutionError ''invalid_input'' ''Path is required.'' []))
   \<and> (s \<noteq> [] \<and> strip s \<noteq> [] \<and> normalize_path pf s = Inr resolved \<longrightarrow>
        resolve_local_path pf s (Some []) mb =
          Inl (PathResolutionError ''permission_denied'' ''Path is outside allowed roots.''
                 [(''path'', PStr (str_of_path resolved)), (''allowed_roots'', PList [])]))"
proof (intro conjI allI impI)
  fix r
  show "resolve_local_path pf s (Some []) mb \<noteq> Inr r"
  proof
    assume "resolve_local_path pf s (Some []) mb = Inr r"
    from resolve_success_cases [OF this]
    show False by (auto simp: effective_roots_def)
  qed
next
  show "effective_roots pf (Some []) = []"
    by (simp add: effective_roots_def)
next
  assume "s = [] \<or> strip s = []"
  then show "resolve_local_path pf s (Some []) mb =
          Inl (PathResolutionError ''invalid_input'' ''Path is required.'' [])"
    by (auto simp: resolve_local_path_def)
next
  assume h: "s \<noteq> [] \<and> strip s \<noteq> [] \<and> normalize_path pf s = Inr resolved"
  have a: "normalize_all pf (effective_roots pf (Some [])) = Inr []"
    by (simp add: effective_roots_def)
  have "check_resolved pf resolved [] mb =
          Inl (PathResolutionError ''permission_denied'' ''Path is outside allowed roots.''
                 [(''path'', PStr (str_of_path resolved)), (''allowed_roots'', PList [])])"
    by (simp add: check_resolved_def)
  with h a show "resolve_local_path pf s (Some []) mb =
          Inl (PathResolutionError ''permission_denied'' ''Path is outside allowed roots.''
                 [(''path'', PStr (str_of_path resolved)), (''allowed_roots'', PList [])])"
    using reaches_check [of s pf resolved "Some []" "[]" mb] by simp
qed

theorem empty_roots_never_resolve_witness:
  "resolve_local_path sandbox_demo ''a.cif'' None None = Inr [''srv'', ''data'', ''a.cif'']
   \<and> normalize_path sandbox_demo ''a.cif'' = Inr [''srv'', ''data'', ''a.cif'']
   \<and> resolve_local_path sandbox_demo ''a.cif'' (Some []) None =
       Inl (PathResolutionError ''permission_denied'' ''Path is outside allowed roots.''
              [(''path'', PStr ''/srv/data/a.cif''), (''allowed_roots'', PList [])])
   \<and> resolve_local_path sandbox_demo ''  '' (Some []) None =
       Inl (PathResolutionError ''invalid_input'' ''Path is required.'' [])"
proof -
  have a: "resolve_local_path sandbox_demo ''a.cif'' None None = Inr [''srv'', ''data'', ''a.cif'']"
    by (simp add: sandbox_eval)
  have n: "normalize_path sandbox_demo ''a.cif'' = Inr [''srv'', ''data'', ''a.cif'']"
    by (simp add: sandbox_eval)
  have nb: "''a.cif'' \<noteq> [] \<and> strip ''a.cif'' \<noteq> []"
    by (simp add: strip_def strip_with_def py_isspace_def)
  have bl: "''  '' = [] \<or> strip ''  '' = []"
    by (simp add: strip_def strip_with_def py_isspace_def)
  from empty_roots_never_resolve [of sandbox_demo "''a.cif''" None "[''srv'', ''data'', ''a.cif'']"] nb n
  have d: "resolve_local_path sandbox_demo ''a.cif'' (Some []) None =
       Inl (PathResolutionError ''permission_denied'' ''Path is outside allowed roots.''
              [(''path'', PStr (str_of_path [''srv'', ''data'', ''a.cif''])), (''allowed_roots'', PList [])])"
    by blast
  from empty_roots_never_resolve [of sandbox_demo "''  ''" None] bl
  have b: "resolve_local_path sandbox_demo ''  '' (Some []) None =
       Inl (PathResolutionError ''invalid_input'' ''Path is required.'' [])"
    by blast
  from a n d b show ?thesis by (simp add: str_of_path_def)
qed

section \<open>Properties of the report path\<close>

lemma replace_runs_re_sub:
  "replace_runs False cs = re_sub_runs cs
   \<and> replace_runs True cs = re_sub_runs (dropWhile (\<lambda>d. \<not> slug_char d) cs)"
  by (induction cs) simp_all

lemma slug_char_underscore: "slug_char (CHR ''_'')"
  by (simp add: slug_char_def)

lemma re_sub_runs_chars: "c \<in> set (re_sub_runs cs) \<Longrightarrow> slug_char c"
  by (induction cs rule: re_sub_runs.induct)
     (auto simp: slug_char_underscore split: if_splits)

lemma set_strip_with: "set (strip_with P s) \<subseteq> set s"
proof -
  have "set (rev (dropWhile P (rev (dropWhile P s)))) \<subseteq> set (dropWhile P s)"
    using set_dropWhileD [of _ P "rev (dropWhile P s)"] by auto
  also have "\<dots> \<subseteq> set s"
    using set_dropWhileD [of _ P s] by auto
  finally show ?thesis by (simp add: strip_with_def)
qed

lemma slugify_unfold:
  "slugify q n =
     take n (if strip_with (\<lambda>c. c = CHR ''_'') (re_sub_runs q) = [] then ''report''
             else strip_with (\<lambda>c. c = CHR ''_'') (re_sub_runs q))"
  by (simp add: slugify_def Let_def)

lemma report_chars: "c \<in> set ''report'' \<Longrightarrow> slug_char c"
proof -
  have "\<forall>c \<in> set ''report''. slug_char c"
    by (simp add: slug_char_def)
  then show "c \<in> set ''report'' \<Longrightarrow> slug_char c" by blast
qed

lemma slugify_chars:
  assumes "c \<in> set (slugify q n)"
  shows "slug_char c"
proof (cases "strip_with (\<lambda>c. c = CHR ''_'') (re_sub_runs q) = []")
  case True
  with assms have "c \<in> set (take n ''report'')"
    by (simp add: slugify_unfold)
  then have "c \<in> set ''report''" by (rule in_set_takeD)
  then show ?thesis by (rule report_chars)
next
  case False
  with assms have "c \<in> set (take n (strip_with (\<lambda>c. c = CHR ''_'') (re_sub_runs q)))"
    by (simp add: slugify_unfold)
  then have "c \<in> set (strip_with (\<lambda>c. c = CHR ''_'') (re_sub_runs q))"
    by (rule in_set_takeD)
  then have "c \<in> set (re_sub_runs q)"
    using set_strip_with [of "\<lambda>c. c = CHR ''_''" "re_sub_runs q"] by blast
  then show ?thesis by (rule re_sub_runs_chars)
qed

lemma slugify_nonempty: "0 < n \<Longrightarrow> slugify q n \<noteq> []"
  by (simp add: slugify_unfold)

lemma slugify_length: "length (slugify q n) \<le> n"
  by (simp add: slugify_unfold)

lemma slugify_runs: "slugify q 50 = spec_slug_runs q"
  by (simp add: slugify_unfold spec_slug_runs_def Let_def replace_runs_re_sub)

lemma replace_runs_map:
  "no_adjacent_outside cs \<Longrightarrow>
     replace_runs False cs = map (\<lambda>c. if slug_char c then c else CHR ''_'') cs
     \<and> (cs = [] \<or> slug_char (hd cs) \<longrightarrow>
          replace_runs True cs = map (\<lambda>c. if slug_char c then c else CHR ''_'') cs)"
proof (induction cs)
  case Nil
  then show ?case by simp
next
  case (Cons a cs)
  show ?case
  proof (cases cs)
    case Nil
    then show ?thesis by simp
  next
    case (Cons b ds)
    with Cons.prems have "no_adjacent_outside cs" and "slug_char a \<or> slug_char b"
      by simp_all
    with Cons.IH Cons show ?thesis by auto
  qed
qed

lemma slugify_spec: "no_adjacent_outside q \<Longrightarrow> slugify q 50 = spec_slug q"
  using replace_runs_map [of q]
  by (simp add: slugify_runs spec_slug_runs_def spec_slug_def)

lemma split_on_absent: "sep \<notin> set s \<Longrightarrow> split_on sep s = [s]"
  by (induction s) auto

lemma single_component:
  assumes "CHR ''/'' \<notin> set uid"
  shows "path_join d (slugify q 50 @ ''_'' @ uid @ ''.html'')
           = d @ [slugify q 50 @ ''_'' @ uid @ ''.html'']"
proof -
  let ?f = "slugify q 50 @ ''_'' @ uid @ ''.html''"
  have ne: "slugify q 50 \<noteq> []" by (simp add: slugify_nonempty)
  have sl: "CHR ''/'' \<notin> set (slugify q 50)"
    using slugify_chars [of "CHR ''/''" q 50] by (auto simp: slug_char_def)
  with assms have "CHR ''/'' \<notin> set ?f" by simp
  then have sp: "split_on CHR ''/'' ?f = [?f]" by (rule split_on_absent)
  have hd: "hd ?f \<noteq> CHR ''/''"
    using ne sl by (cases "slugify q 50") auto
  have "length ?f \<noteq> length ''.''" by simp
  then have nd: "?f \<noteq> ''.''" by fastforce
  have "?f \<noteq> []" by simp
  with sp nd hd show ?thesis
    by (simp add: path_join_def path_parts_def)
qed

text \<open>
  Claim C7, as the code has it. \<open>build_report_path\<close> returns the directory joined with
  \<open>slug_uid.html\<close>, where \<open>uid\<close> is the text of the identifier and the slug is obtained
  from the query by replacing every maximal run of characters outside \<open>[A-Za-z0-9_-]\<close>
  with a single underscore, trimming leading and trailing underscores, cutting to 50
  characters and taking \<open>report\<close> for an empty result. The slug is never empty, has at most
  50 characters, all from the class; it is the slug of the specification's wording
  whenever no two adjacent characters of the query are outside the class. When the
  identifier has no \<open>/\<close>, the file name is the last component of the result.
\<close>

theorem build_report_path_slug:
  "build_report_path query dir uid = path_join dir (slugify query 50 @ ''_'' @ uid @ ''.html'')
   \<and> slugify query 50 = spec_slug_runs query
   \<and> slugify query 50 \<noteq> [] \<and> length (slugify query 50) \<le> 50
   \<and> (\<forall>c \<in> set (slugify query 50). slug_char c)
   \<and> (no_adjacent_outside query \<longrightarrow> slugify query 50 = spec_slug query)
   \<and> (CHR ''/'' \<notin> set uid \<longrightarrow>
        build_report_path query dir uid = dir @ [slugify query 50 @ ''_'' @ uid @ ''.html''])"
proof (intro conjI ballI impI)
  show "build_report_path query dir uid = path_join dir (slugify query 50 @ ''_'' @ uid @ ''.html'')"
    by (simp add: build_report_path_def Let_def)
  show "slugify query 50 = spec_slug_runs query" by (rule slugify_runs)
  show "slugify query 50 \<noteq> []" by (simp add: slugify_nonempty)
  show "length (slugify query 50) \<le> 50" by (rule slugify_length)
next
  fix c assume "c \<in> set (slugify query 50)"
  then show "slug_char c" by (rule slugify_chars)
next
  assume "no_adjacent_outside query"
  then show "slugify query 50 = spec_slug query" by (rule slugify_spec)
next
  assume "CHR ''/'' \<notin> set uid"
  then show "build_report_path query dir uid = dir @ [slugify query 50 @ ''_'' @ uid @ ''.html'']"
    using single_component [of uid dir query] by (simp add: build_report_path_def Let_def)
qed

lemmas slug_eval = slugify_def strip_with_def slug_char_def Let_def

theorem build_report_path_slug_witness:
  "no_adjacent_outside ''Fe2O3'' \<and> CHR ''/'' \<notin> set ''fixed-uuid''
   \<and> slugify ''Fe2O3'' 50 = ''Fe2O3'' \<and> spec_slug ''Fe2O3'' = ''Fe2O3''
   \<and> build_report_path ''Fe2O3'' [''tmp'', ''sky_reports''] ''fixed-uuid''
       = [''tmp'', ''sky_reports'', ''Fe2O3_fixed-uuid.html'']"
proof -
  have a: "no_adjacent_outside ''Fe2O3''" by (simp add: slug_char_def)
  have b: "CHR ''/'' \<notin> set ''fixed-uuid''" by simp
  have c: "slugify ''Fe2O3'' 50 = ''Fe2O3''" by (simp add: slug_eval)
  note t = build_report_path_slug [of "''Fe2O3''" "[''tmp'', ''sky_reports'']" "''fixed-uuid''"]
  from t have "no_adjacent_outside ''Fe2O3'' \<longrightarrow> slugify ''Fe2O3'' 50 = spec_slug ''Fe2O3''"
    by blast
  with a have "slugify ''Fe2O3'' 50 = spec_slug ''Fe2O3''" by blast
  with c have d: "spec_slug ''Fe2O3'' = ''Fe2O3''" by simp
  from t have "CHR ''/'' \<notin> set ''fixed-uuid'' \<longrightarrow>
      build_report_path ''Fe2O3'' [''tmp'', ''sky_reports''] ''fixed-uuid''
        = [''tmp'', ''sky_reports''] @ [slugify ''Fe2O3'' 50 @ ''_'' @ ''fixed-uuid'' @ ''.html'']"
    by blast
  with b have "build_report_path ''Fe2O3'' [''tmp'', ''sky_reports''] ''fixed-uuid''
        = [''tmp'', ''sky_reports''] @ [slugify ''Fe2O3'' 50 @ ''_'' @ ''fixed-uuid'' @ ''.html'']"
    by blast
  with c have e: "build_report_path ''Fe2O3'' [''tmp'', ''sky_reports''] ''fixed-uuid''
       = [''tmp'', ''sky_reports'', ''Fe2O3_fixed-uuid.html'']" by simp
  from a b c d e show ?thesis by blast
qed

text \<open>The claim as stated fails where two characters outside the class are adjacent: for
  the query \<open>a  b\<close> (two spaces) the code's file name is \<open>a_b_u.html\<close>, the claim's is
  \<open>a__b_u.html\<close>.\<close>

theorem adjacent_outside_counterexample:
  "build_report_path ''a  b'' [''sky_reports''] ''u'' = [''sky_reports'', ''a_b_u.html'']
   \<and> path_join [''sky_reports''] (spec_slug ''a  b'' @ ''_'' @ ''u'' @ ''.html'')
       = [''sky_reports'', ''a__b_u.html'']"
proof (intro conjI)
  have "slugify ''a  b'' 50 = ''a_b''" by (simp add: slug_eval)
  then show "build_report_path ''a  b'' [''sky_reports''] ''u'' = [''sky_reports'', ''a_b_u.html'']"
    by (simp add: build_report_path_def path_join_def path_parts_def)
  have "spec_slug ''a  b'' = ''a__b''" by (simp add: spec_slug_def slug_eval)
  then show "path_join [''sky_reports''] (spec_slug ''a  b'' @ ''_'' @ ''u'' @ ''.html'')
       = [''sky_reports'', ''a__b_u.html'']"
    by (simp add: path_join_def path_parts_def)
qed

section \<open>Properties of the atomic writer\<close>

lemma parent_snoc: "parent (d @ [x]) = d"
  by (simp add: parent_def)

lemma parent_differs: "p \<noteq> [] \<Longrightarrow> parent p \<noteq> p"
proof
  assume "p \<noteq> []" and "parent p = p"
  then have "length (butlast p) = length p" by (simp add: parent_def)
  with \<open>p \<noteq> []\<close> show False by (cases p rule: rev_cases) auto
qed

lemma prefix_parent: "prefix q (parent p) \<Longrightarrow> prefix q p"
  unfolding parent_def using prefixeq_butlast [of p] prefix_order.trans by blast

lemma not_prefix_parent: "p \<noteq> [] \<Longrightarrow> \<not> prefix p (parent p)"
proof
  assume "p \<noteq> []" and "prefix p (parent p)"
  then have "prefix p (butlast p)" by (simp add: parent_def)
  then have "length p \<le> length (butlast p)" by (rule prefix_length_le)
  with \<open>p \<noteq> []\<close> show False by (cases p rule: rev_cases) auto
qed

lemma prefix_cases_parent:
  assumes "prefix q p" and "q \<noteq> p"
  shows "prefix q (parent p)"
proof -
  from assms have "p \<noteq> []" by auto
  then have "p = butlast p @ [last p]" by simp
  with assms show ?thesis
    unfolding parent_def by (metis prefix_snoc)
qed

lemma node_at_root: "node_at f [] = Some Dir"
  by (simp add: node_at_def)

lemma wf_prefix:
  "wf_fs f \<Longrightarrow> node_at f q \<noteq> None \<Longrightarrow> prefix r q \<Longrightarrow> r \<noteq> q \<Longrightarrow> node_at f r = Some Dir"
proof (induction q arbitrary: r rule: rev_induct)
  case Nil
  then show ?case by simp
next
  case (snoc y ys)
  from snoc.prems(1,2) have d: "node_at f ys = Some Dir"
    unfolding wf_fs_def using parent_snoc [of ys y] by metis
  from snoc.prems(3,4) have "prefix r ys" by (simp add: prefix_snoc)
  show ?case
  proof (cases "r = ys")
    case True
    with d show ?thesis by simp
  next
    case False
    from d have "node_at f ys \<noteq> None" by simp
    from snoc.IH [OF snoc.prems(1) this \<open>prefix r ys\<close> False] show ?thesis .
  qed
qed

lemma wf_prefixes_present:
  assumes "wf_fs f" and "node_at f p = Some Dir"
  shows "\<forall>q. prefix q p \<longrightarrow> node_at f q = Some Dir"
proof (intro allI impI)
  fix q assume "prefix q p"
  show "node_at f q = Some Dir"
  proof (cases "q = p")
    case True
    with assms(2) show ?thesis by simp
  next
    case False
    from assms(2) have "node_at f p \<noteq> None" by simp
    from wf_prefix [OF assms(1) this \<open>prefix q p\<close> False] show ?thesis .
  qed
qed

lemma filter_absent_prefixes:
  assumes "\<forall>q. prefix q d \<longrightarrow> node_at f q = Some Dir"
  shows "filter (\<lambda>q. node_at f q = None) (prefixes d) = []"
  using assms by (auto simp: filter_empty_conv)

lemma prefixes_parent: "p \<noteq> [] \<Longrightarrow> prefixes p = prefixes (parent p) @ [p]"
proof -
  assume "p \<noteq> []"
  then have "p = butlast p @ [last p]" by simp
  then have "prefixes p = prefixes (butlast p @ [last p])" by simp
  also have "\<dots> = prefixes (butlast p) @ [butlast p @ [last p]]" by simp
  finally show ?thesis using \<open>p \<noteq> []\<close> by (simp add: parent_def)
qed

lemma os_mkdir_result:
  "os_mkdir f p = Inr f' \<Longrightarrow>
     (\<forall>q. node_at f' q = (if q = p then Some Dir else node_at f q))
     \<and> trace f' = trace f @ [Mkdir p] \<and> p \<noteq> []
     \<and> node_at f p = None \<and> node_at f (parent p) = Some Dir"
  by (auto simp: os_mkdir_def node_at_def split: if_splits option.splits node.splits)

lemma os_mkdir_present:
  "node_at f p \<noteq> None \<Longrightarrow> \<exists>e. os_mkdir f p = Inl e \<and> \<not> is_enoent e"
  by (simp add: os_mkdir_def)

lemma os_mkdir_orphan:
  "node_at f p = None \<Longrightarrow> node_at f (parent p) = None \<Longrightarrow>
   \<exists>e. os_mkdir f p = Inl e \<and> is_enoent e"
  by (simp add: os_mkdir_def)

lemma os_mkdir_fresh:
  "node_at f p = None \<Longrightarrow> node_at f (parent p) = Some Dir \<Longrightarrow> \<exists>f'. os_mkdir f p = Inr f'"
  by (simp add: os_mkdir_def)

lemma os_mkdir_enoent:
  "os_mkdir f p = Inl e \<Longrightarrow> is_enoent e \<Longrightarrow> node_at f p = None \<and> node_at f (parent p) = None"
  by (auto simp: os_mkdir_def split: if_splits option.splits node.splits)

lemma mkdir_exist_ok_fresh:
  assumes "node_at f p = None" and "mkdir_exist_ok f p = Inr f'"
  shows "os_mkdir f p = Inr f'"
proof (cases "os_mkdir f p")
  case (Inr g)
  with assms(2) show ?thesis by (simp add: mkdir_exist_ok_def)
next
  case (Inl e)
  with assms show ?thesis
    by (auto simp: mkdir_exist_ok_def is_dir_def split: if_splits)
qed

lemma mkdir_exist_ok_succeeds:
  assumes "node_at f p = None" and "node_at f (parent p) = Some Dir"
  shows "\<exists>f'. mkdir_exist_ok f p = Inr f'"
  using os_mkdir_fresh [OF assms] by (auto simp: mkdir_exist_ok_def)

lemma mkdir_parents_result:
  "mkdir_parents f p = Inr f' \<Longrightarrow>
     \<exists>ds. trace f' = trace f @ map Mkdir ds
        \<and> (\<forall>d \<in> set ds. prefix d p \<and> node_at f d = None)
        \<and> (\<forall>q. node_at f' q = (if q \<in> set ds then Some Dir else node_at f q))
        \<and> node_at f' p = Some Dir
        \<and> (wf_fs f \<longrightarrow> ds = filter (\<lambda>q. node_at f q = None) (prefixes p)
                        \<and> (\<forall>q. prefix q p \<longrightarrow> node_at f' q = Some Dir))"
proof (induction f p arbitrary: f' rule: mkdir_parents.induct)
  case (1 f p)
  show ?case
  proof (cases "os_mkdir f p")
    case (Inr g)
    with "1.prems" have fg: "f' = g" by (simp add: mkdir_parents.simps [of f p])
    from os_mkdir_result [OF Inr] fg
    have n: "\<forall>q. node_at f' q = (if q = p then Some Dir else node_at f q)"
      and t: "trace f' = trace f @ [Mkdir p]" and pne: "p \<noteq> []"
      and ab: "node_at f p = None" and pd: "node_at f (parent p) = Some Dir"
      by simp_all
    have w: "wf_fs f \<longrightarrow> [p] = filter (\<lambda>q. node_at f q = None) (prefixes p)
                        \<and> (\<forall>q. prefix q p \<longrightarrow> node_at f' q = Some Dir)"
    proof (intro impI conjI allI)
      assume wf: "wf_fs f"
      from wf_prefixes_present [OF wf pd]
      have al: "\<forall>q. prefix q (parent p) \<longrightarrow> node_at f q = Some Dir" .
      from filter_absent_prefixes [OF al] ab prefixes_parent [OF pne]
      show "[p] = filter (\<lambda>q. node_at f q = None) (prefixes p)" by simp
      fix q assume pq: "prefix q p"
      show "node_at f' q = Some Dir"
      proof (cases "q = p")
        case True
        with n show ?thesis by simp
      next
        case False
        from prefix_cases_parent [OF pq False] al have "node_at f q = Some Dir" by blast
        with n False show ?thesis by simp
      qed
    qed
    have "trace f' = trace f @ map Mkdir [p]" using t by simp
    moreover have "\<forall>d \<in> set [p]. prefix d p \<and> node_at f d = None" using ab by simp
    moreover have "\<forall>q. node_at f' q = (if q \<in> set [p] then Some Dir else node_at f q)"
      using n by simp
    moreover have "node_at f' p = Some Dir" using n by simp
    ultimately show ?thesis using w by blast
  next
    case (Inl e)
    show ?thesis
    proof (cases "is_enoent e")
      case False
      with Inl "1.prems" have ff: "f' = f" and dir: "node_at f p = Some Dir"
        by (auto simp: mkdir_parents.simps [of f p] is_dir_def split: if_splits)
      have w: "wf_fs f \<longrightarrow> [] = filter (\<lambda>q. node_at f q = None) (prefixes p)
                        \<and> (\<forall>q. prefix q p \<longrightarrow> node_at f' q = Some Dir)"
      proof (intro impI conjI)
        assume wf: "wf_fs f"
        from wf_prefixes_present [OF wf dir]
        have al: "\<forall>q. prefix q p \<longrightarrow> node_at f q = Some Dir" .
        from filter_absent_prefixes [OF al]
        show "[] = filter (\<lambda>q. node_at f q = None) (prefixes p)" by simp
        from al ff show "\<forall>q. prefix q p \<longrightarrow> node_at f' q = Some Dir" by simp
      qed
      have "trace f' = trace f @ map Mkdir []" using ff by simp
      moreover have "\<forall>d \<in> set []. prefix d p \<and> node_at f d = None" by simp
      moreover have "\<forall>q. node_at f' q = (if q \<in> set [] then Some Dir else node_at f q)"
        using ff by simp
      moreover have "node_at f' p = Some Dir" using ff dir by simp
      ultimately show ?thesis using w by blast
    next
      case True
      from os_mkdir_enoent [OF Inl True]
      have ab: "node_at f p = None" and pab: "node_at f (parent p) = None" by simp_all
      from ab have pne: "p \<noteq> []" by (auto simp: node_at_def)
      then have np: "parent p \<noteq> p" by (rule parent_differs)
      with Inl True "1.prems" obtain f1 where
        a: "mkdir_parents f (parent p) = Inr f1" and b: "mkdir_exist_ok f1 p = Inr f'"
        by (auto simp: mkdir_parents.simps [of f p] split: if_splits sum.splits)
      from "1.IH" [OF Inl True np a] obtain ds where
        t1: "trace f1 = trace f @ map Mkdir ds"
        and s1: "\<forall>d \<in> set ds. prefix d (parent p) \<and> node_at f d = None"
        and n1: "\<forall>q. node_at f1 q = (if q \<in> set ds then Some Dir else node_at f q)"
        and d1: "node_at f1 (parent p) = Some Dir"
        and w1: "wf_fs f \<longrightarrow> ds = filter (\<lambda>q. node_at f q = None) (prefixes (parent p))
                        \<and> (\<forall>q. prefix q (parent p) \<longrightarrow> node_at f1 q = Some Dir)"
        by blast
      from s1 not_prefix_parent [OF pne] have pnot: "p \<notin> set ds" by blast
      with n1 ab have ab1: "node_at f1 p = None" by simp
      from mkdir_exist_ok_fresh [OF ab1 b] have "os_mkdir f1 p = Inr f'" .
      from os_mkdir_result [OF this]
      have n2: "\<forall>q. node_at f' q = (if q = p then Some Dir else node_at f1 q)"
        and t2: "trace f' = trace f1 @ [Mkdir p]"
        by simp_all
      have "trace f' = trace f @ map Mkdir (ds @ [p])" using t1 t2 by simp
      moreover have "\<forall>d \<in> set (ds @ [p]). prefix d p \<and> node_at f d = None"
        using s1 ab prefix_parent by auto
      moreover have "\<forall>q. node_at f' q = (if q \<in> set (ds @ [p]) then Some Dir else node_at f q)"
        using n1 n2 by simp
      moreover have "node_at f' p = Some Dir" using n2 by simp
      moreover have "wf_fs f \<longrightarrow> ds @ [p] = filter (\<lambda>q. node_at f q = None) (prefixes p)
                        \<and> (\<forall>q. prefix q p \<longrightarrow> node_at f' q = Some Dir)"
      proof (intro impI conjI allI)
        assume wf: "wf_fs f"
        with w1 have e: "ds = filter (\<lambda>q. node_at f q = None) (prefixes (parent p))"
          and al: "\<forall>q. prefix q (parent p) \<longrightarrow> node_at f1 q = Some Dir"
          by simp_all
        from e ab prefixes_parent [OF pne]
        show "ds @ [p] = filter (\<lambda>q. node_at f q = None) (prefixes p)" by simp
        fix q assume pq: "prefix q p"
        show "node_at f' q = Some Dir"
        proof (cases "q = p")
          case True
          with n2 show ?thesis by simp
        next
          case False
          from prefix_cases_parent [OF pq False] al have "node_at f1 q = Some Dir" by blast
          with n2 False show ?thesis by simp
        qed
      qed
      ultimately show ?thesis by blast
    qed
  qed
qed

lemma mkdir_parents_succeeds:
  "\<forall>q. prefix q p \<longrightarrow> node_at f q = None \<or> node_at f q = Some Dir \<Longrightarrow>
   \<exists>f'. mkdir_parents f p = Inr f'"
proof (induction f p rule: mkdir_parents.induct)
  case (1 f p)
  from "1.prems" have self: "node_at f p = None \<or> node_at f p = Some Dir" by simp
  show ?case
  proof (cases "node_at f p = None")
    case False
    with self have dir: "node_at f p = Some Dir" by simp
    from os_mkdir_present [OF False] obtain e where
      "os_mkdir f p = Inl e" "\<not> is_enoent e" by blast
    with dir have "mkdir_parents f p = Inr f"
      by (simp add: mkdir_parents.simps [of f p] is_dir_def)
    then show ?thesis by blast
  next
    case True
    then have pne: "p \<noteq> []" by (auto simp: node_at_def)
    then have np: "parent p \<noteq> p" by (rule parent_differs)
    have pp: "prefix (parent p) p" unfolding parent_def by (rule prefixeq_butlast)
    with "1.prems" have par: "node_at f (parent p) = None \<or> node_at f (parent p) = Some Dir"
      by blast
    show ?thesis
    proof (cases "node_at f (parent p) = None")
      case False
      with par have "node_at f (parent p) = Some Dir" by simp
      from os_mkdir_fresh [OF True this] obtain g where "os_mkdir f p = Inr g" by blast
      then have "mkdir_parents f p = Inr g" by (simp add: mkdir_parents.simps [of f p])
      then show ?thesis by blast
    next
      case pabs: True
      from os_mkdir_orphan [OF True pabs] obtain e where
        e: "os_mkdir f p = Inl e" and en: "is_enoent e" by blast
      have "\<forall>q. prefix q (parent p) \<longrightarrow> node_at f q = None \<or> node_at f q = Some Dir"
        using "1.prems" prefix_parent by blast
      from "1.IH" [OF e en np this] obtain f1 where f1: "mkdir_parents f (parent p) = Inr f1"
        by blast
      from mkdir_parents_result [OF f1] obtain ds where
        s1: "\<forall>d \<in> set ds. prefix d (parent p) \<and> node_at f d = None"
        and n1: "\<forall>q. node_at f1 q = (if q \<in> set ds then Some Dir else node_at f q)"
        and d1: "node_at f1 (parent p) = Some Dir"
        by blast
      from s1 not_prefix_parent [OF pne] have "p \<notin> set ds" by blast
      with n1 True have "node_at f1 p = None" by simp
      from mkdir_exist_ok_succeeds [OF this d1] obtain f' where "mkdir_exist_ok f1 p = Inr f'"
        by blast
      with e en np f1 have "mkdir_parents f p = Inr f'"
        by (simp add: mkdir_parents.simps [of f p])
      then show ?thesis by blast
    qed
  qed
qed

lemma os_open_excl_result:
  "os_open_excl f p = Inr f' \<Longrightarrow>
     (\<forall>q. node_at f' q = (if q = p then Some (File []) else node_at f q))
     \<and> trace f' = trace f @ [Create p] \<and> p \<noteq> []
     \<and> node_at f p = None \<and> node_at f (parent p) = Some Dir"
  by (auto simp: os_open_excl_def node_at_def split: if_splits option.splits node.splits)

lemma os_open_excl_fresh:
  "node_at f p = None \<Longrightarrow> node_at f (parent p) = Some Dir \<Longrightarrow> \<exists>f'. os_open_excl f p = Inr f'"
  by (simp add: os_open_excl_def)

lemma os_open_excl_present:
  "node_at f p \<noteq> None \<Longrightarrow> \<exists>e. os_open_excl f p = Inl e \<and> is_eexist e"
  by (simp add: os_open_excl_def)

lemma mkstemp_inner_result:
  "mkstemp_inner f dir pre suf ns = Inr (file, f2) \<Longrightarrow>
     (\<exists>n \<in> set ns. file = dir @ [pre @ n @ suf])
     \<and> node_at f file = None \<and> node_at f dir = Some Dir
     \<and> (\<forall>q. node_at f2 q = (if q = file then Some (File []) else node_at f q))
     \<and> trace f2 = trace f @ [Create file]"
proof (induction ns)
  case Nil
  then show ?case by simp
next
  case (Cons n ns)
  show ?case
  proof (cases "os_open_excl f (dir @ [pre @ n @ suf])")
    case (Inr g)
    with Cons.prems have e: "file = dir @ [pre @ n @ suf]" "f2 = g" by simp_all
    from os_open_excl_result [OF Inr] e parent_snoc [of dir "pre @ n @ suf"]
    have "node_at f file = None" "node_at f dir = Some Dir"
      "\<forall>q. node_at f2 q = (if q = file then Some (File []) else node_at f q)"
      "trace f2 = trace f @ [Create file]"
      by simp_all
    moreover have "\<exists>n \<in> set (n # ns). file = dir @ [pre @ n @ suf]" using e by simp
    ultimately show ?thesis by blast
  next
    case (Inl e)
    with Cons.prems have "mkstemp_inner f dir pre suf ns = Inr (file, f2)"
      by (simp split: if_splits)
    from Cons.IH [OF this] show ?thesis by auto
  qed
qed

lemma mkstemp_inner_succeeds:
  "node_at f dir = Some Dir \<Longrightarrow> \<exists>n \<in> set ns. node_at f (dir @ [pre @ n @ suf]) = None \<Longrightarrow>
   \<exists>file f2. mkstemp_inner f dir pre suf ns = Inr (file, f2)"
proof (induction ns)
  case Nil
  then show ?case by simp
next
  case (Cons n ns)
  show ?case
  proof (cases "node_at f (dir @ [pre @ n @ suf]) = None")
    case True
    from Cons.prems(1) have "node_at f (parent (dir @ [pre @ n @ suf])) = Some Dir"
      by (simp add: parent_snoc)
    from os_open_excl_fresh [OF True this] show ?thesis by auto
  next
    case False
    from os_open_excl_present [OF False] obtain e where
      e: "os_open_excl f (dir @ [pre @ n @ suf]) = Inl e" "is_eexist e" by blast
    from False Cons.prems(2) have "\<exists>n \<in> set ns. node_at f (dir @ [pre @ n @ suf]) = None"
      by auto
    from Cons.IH [OF Cons.prems(1) this] e show ?thesis by simp
  qed
qed

lemma write_text_result:
  "p \<noteq> [] \<Longrightarrow>
     (\<forall>q. node_at (write_text f p c) q = (if q = p then Some (File c) else node_at f q))
     \<and> trace (write_text f p c) = trace f @ [Write p c]"
  by (simp add: write_text_def node_at_def)

lemma os_replace_result:
  "os_replace f src dst = Inr f' \<Longrightarrow>
     (\<exists>c. node_at f src = Some (File c)
          \<and> (\<forall>q. node_at f' q =
                (if q = dst then Some (File c) else if q = src then None else node_at f q)))
     \<and> trace f' = trace f @ [Rename src dst] \<and> dst \<noteq> [] \<and> src \<noteq> []"
  by (auto simp: os_replace_def node_at_def split: option.splits node.splits if_splits)

lemma os_replace_succeeds:
  "node_at f src = Some (File c) \<Longrightarrow> node_at f dst \<noteq> Some Dir \<Longrightarrow>
   node_at f (parent dst) = Some Dir \<Longrightarrow> \<exists>f'. os_replace f src dst = Inr f'"
  by (auto simp: os_replace_def split: option.splits node.splits)

lemma rfind_dot_nth:
  assumes "rfind_dot name = Some i"
  shows "i < length name \<and> name ! i = CHR ''.''"
proof -
  let ?P = "\<lambda>c. c \<noteq> CHR ''.''"
  let ?k = "length (takeWhile ?P (rev name))"
  from assms have dot: "CHR ''.'' \<in> set name" and i: "i = length name - 1 - ?k"
    by (auto simp: rfind_dot_def split: if_splits)
  from dot have "takeWhile ?P (rev name) \<noteq> rev name"
    by (auto simp: takeWhile_eq_all_conv)
  moreover have "?k \<le> length (rev name)" by (rule length_takeWhile_le)
  ultimately have k: "?k < length name"
    using takeWhile_eq_all_conv [of ?P "rev name"] length_takeWhile_le [of ?P "rev name"]
    by (metis le_neq_implies_less length_rev takeWhile_eq_take take_all_iff order_refl)
  then have "\<not> ?P (rev name ! ?k)"
    using nth_length_takeWhile [of ?P "rev name"] by simp
  then have "rev name ! ?k = CHR ''.''" by simp
  moreover have "rev name ! ?k = name ! (length name - Suc ?k)"
    using k by (rule rev_nth)
  ultimately show ?thesis using k i by auto
qed

lemma temp_name_differs: "stem_of name @ ''_'' @ r @ ''.tmp'' \<noteq> name"
proof (cases "stem_of name = name")
  case True
  have "length (name @ ''_'' @ r @ ''.tmp'') \<noteq> length name" by simp
  then have "name @ ''_'' @ r @ ''.tmp'' \<noteq> name" by fastforce
  with True show ?thesis by simp
next
  case False
  then obtain i where i: "rfind_dot name = Some i" and s: "stem_of name = take i name"
    by (auto simp: stem_of_def split: option.splits if_splits)
  from rfind_dot_nth [OF i] have l: "i < length name" and d: "name ! i = CHR ''.''"
    by simp_all
  show ?thesis
  proof
    assume e: "stem_of name @ ''_'' @ r @ ''.tmp'' = name"
    have "(take i name @ ''_'' @ r @ ''.tmp'') ! i = CHR ''_''"
      using l by (simp add: nth_append)
    with e s d show False by simp
  qed
qed

lemma target_split: "t \<noteq> [] \<Longrightarrow> t = parent t @ [name_of t]"
  by (simp add: parent_def name_of_def)

lemma temp_path_differs:
  assumes "t \<noteq> []"
  shows "parent t @ [stem_of (name_of t) @ ''_'' @ r @ ''.tmp''] \<noteq> t"
proof
  assume "parent t @ [stem_of (name_of t) @ ''_'' @ r @ ''.tmp''] = t"
  with target_split [OF assms]
  have "parent t @ [stem_of (name_of t) @ ''_'' @ r @ ''.tmp''] = parent t @ [name_of t]"
    by simp
  then have "stem_of (name_of t) @ ''_'' @ r @ ''.tmp'' = name_of t" by simp
  with temp_name_differs show False by blast
qed

lemma child_not_prefix: "\<not> prefix (d @ [x]) d"
proof
  assume "prefix (d @ [x]) d"
  then have "length (d @ [x]) \<le> length d" by (rule prefix_length_le)
  then show False by simp
qed

lemma atomic_write_text_succeeds:
  assumes "target_path \<noteq> []"
    and "\<forall>q. prefix q (parent target_path) \<longrightarrow> node_at f q = None \<or> node_at f q = Some Dir"
    and "node_at f target_path \<noteq> Some Dir"
    and "\<exists>n \<in> set (take tmp_max names).
           node_at f (parent target_path @ [stem_of (name_of target_path) @ ''_'' @ n @ ''.tmp''])
             = None"
  shows "\<exists>f'. atomic_write_text f tmp_max names target_path content = Inr f'"
proof -
  let ?dir = "parent target_path"
  let ?pre = "stem_of (name_of target_path) @ ''_''"
  from mkdir_parents_succeeds [OF assms(2)] obtain f1 where m: "mkdir_parents f ?dir = Inr f1"
    by blast
  from mkdir_parents_result [OF m] obtain ds where
    s1: "\<forall>d \<in> set ds. prefix d ?dir \<and> node_at f d = None"
    and n1: "\<forall>q. node_at f1 q = (if q \<in> set ds then Some Dir else node_at f q)"
    and d1: "node_at f1 ?dir = Some Dir"
    by blast
  have child: "node_at f1 (?dir @ [x]) = node_at f (?dir @ [x])" for x
    using s1 n1 child_not_prefix [of ?dir x] by auto
  from assms(4) obtain n where n: "n \<in> set (take tmp_max names)"
    and "node_at f (?dir @ [?pre @ n @ ''.tmp'']) = None" by auto
  with child have "node_at f1 (?dir @ [?pre @ n @ ''.tmp'']) = None" by simp
  with n have "\<exists>n \<in> set (take tmp_max names). node_at f1 (?dir @ [?pre @ n @ ''.tmp'']) = None"
    by blast
  from mkstemp_inner_succeeds [OF d1 this] obtain tmp f2 where
    t: "mkstemp_inner f1 ?dir ?pre ''.tmp'' (take tmp_max names) = Inr (tmp, f2)"
    by blast
  from mkstemp_inner_result [OF t] obtain r where
    tmp: "tmp = ?dir @ [?pre @ r @ ''.tmp'']"
    and n2: "\<forall>q. node_at f2 q = (if q = tmp then Some (File []) else node_at f1 q)"
    by blast
  from tmp have tne: "tmp \<noteq> []" by simp
  from tmp temp_path_differs [OF assms(1), of r] have diff: "tmp \<noteq> target_path" by simp
  from tmp have dt: "?dir \<noteq> tmp" by simp
  let ?w = "write_text f2 tmp content"
  from write_text_result [OF tne, of f2 content]
  have nw: "\<forall>q. node_at ?w q = (if q = tmp then Some (File content) else node_at f2 q)"
    by simp
  have a: "node_at ?w tmp = Some (File content)" using nw by simp
  have "node_at f1 target_path = node_at f target_path"
    using child [of "name_of target_path"] target_split [OF assms(1)] by simp
  with nw n2 diff assms(3) have b: "node_at ?w target_path \<noteq> Some Dir" by simp
  have c: "node_at ?w ?dir = Some Dir" using nw n2 dt d1 by simp
  from os_replace_succeeds [OF a b c] obtain f' where "os_replace ?w tmp target_path = Inr f'"
    by blast
  with m t have "atomic_write_text f tmp_max names target_path content = Inr f'"
    by (simp add: atomic_write_text_def)
  then show ?thesis by blast
qed

lemma atomic_write_text_effect:
  assumes "atomic_write_text f tmp_max names target_path content = Inr f'"
  shows "node_at f' target_path = Some (File content)
     \<and> node_at f' (parent target_path) = Some Dir
     \<and> (\<exists>rnd ds tmp. rnd \<in> set (take tmp_max names)
          \<and> tmp = parent target_path @ [stem_of (name_of target_path) @ ''_'' @ rnd @ ''.tmp'']
          \<and> parent tmp = parent target_path
          \<and> node_at f tmp = None \<and> node_at f' tmp = None
          \<and> (\<forall>d \<in> set ds. prefix d (parent target_path) \<and> node_at f d = None
                 \<and> node_at f' d = Some Dir)
          \<and> (wf_fs f \<longrightarrow>
                ds = filter (\<lambda>q. node_at f q = None) (prefixes (parent target_path))
                \<and> (\<forall>q. prefix q (parent target_path) \<longrightarrow> node_at f' q = Some Dir))
          \<and> (\<forall>q. q \<notin> set ds \<and> q \<noteq> tmp \<and> q \<noteq> target_path \<longrightarrow> node_at f' q = node_at f q)
          \<and> trace f' = trace f @ map Mkdir ds
               @ [Create tmp, Write tmp content, Rename tmp target_path])"
proof -
  let ?dir = "parent target_path"
  let ?pre = "stem_of (name_of target_path) @ ''_''"
  from assms obtain f1 tmp f2 where
    m: "mkdir_parents f ?dir = Inr f1"
    and t: "mkstemp_inner f1 ?dir ?pre ''.tmp'' (take tmp_max names) = Inr (tmp, f2)"
    and r: "os_replace (write_text f2 tmp content) tmp target_path = Inr f'"
    by (auto simp: atomic_write_text_def split: sum.splits prod.splits)
  from mkdir_parents_result [OF m] obtain ds where
    tr1: "trace f1 = trace f @ map Mkdir ds"
    and s1: "\<forall>d \<in> set ds. prefix d ?dir \<and> node_at f d = None"
    and n1: "\<forall>q. node_at f1 q = (if q \<in> set ds then Some Dir else node_at f q)"
    and d1: "node_at f1 ?dir = Some Dir"
    and w1: "wf_fs f \<longrightarrow> ds = filter (\<lambda>q. node_at f q = None) (prefixes ?dir)
                        \<and> (\<forall>q. prefix q ?dir \<longrightarrow> node_at f1 q = Some Dir)"
    by blast
  from mkstemp_inner_result [OF t] obtain rnd where
    rnd: "rnd \<in> set (take tmp_max names)" and tmp0: "tmp = ?dir @ [?pre @ rnd @ ''.tmp'']"
    and fresh1: "node_at f1 tmp = None"
    and n2: "\<forall>q. node_at f2 q = (if q = tmp then Some (File []) else node_at f1 q)"
    and tr2: "trace f2 = trace f1 @ [Create tmp]"
    by blast
  from tmp0 have tmp: "tmp = ?dir @ [stem_of (name_of target_path) @ ''_'' @ rnd @ ''.tmp'']"
    by simp
  from tmp have tne: "tmp \<noteq> []" by simp
  let ?w = "write_text f2 tmp content"
  from write_text_result [OF tne, of f2 content]
  have nw: "\<forall>q. node_at ?w q = (if q = tmp then Some (File content) else node_at f2 q)"
    and trw: "trace ?w = trace f2 @ [Write tmp content]"
    by simp_all
  from os_replace_result [OF r] obtain c where
    c: "node_at ?w tmp = Some (File c)"
    and n3: "\<forall>q. node_at f' q =
                (if q = target_path then Some (File c) else if q = tmp then None else node_at ?w q)"
    and tr3: "trace f' = trace ?w @ [Rename tmp target_path]"
    and ne: "target_path \<noteq> []"
    by blast
  from c nw have cc: "c = content" by simp
  from tmp temp_path_differs [OF ne, of rnd] have diff: "tmp \<noteq> target_path" by simp
  have tnp: "\<not> prefix tmp ?dir" using tmp child_not_prefix [of ?dir] by simp
  have gnp: "\<not> prefix target_path ?dir" by (rule not_prefix_parent [OF ne])
  have tds: "tmp \<notin> set ds" using s1 tnp by blast
  have gds: "target_path \<notin> set ds" using s1 gnp by blast
  have pfx: "node_at f' q = node_at f1 q" if "prefix q ?dir" for q
  proof -
    from that tnp gnp have "q \<noteq> tmp" "q \<noteq> target_path" by auto
    with n3 nw n2 show ?thesis by simp
  qed
  have a: "node_at f' target_path = Some (File content)" using n3 cc by simp
  have b: "node_at f' ?dir = Some Dir" using pfx [of ?dir] d1 by simp
  have par: "parent tmp = ?dir" using tmp by (simp add: parent_snoc)
  have f0: "node_at f tmp = None" using n1 tds fresh1 by simp
  have g: "node_at f' tmp = None" using n3 diff by simp
  have dirs: "\<forall>d \<in> set ds. prefix d ?dir \<and> node_at f d = None \<and> node_at f' d = Some Dir"
    using s1 n1 pfx by simp
  have wf: "wf_fs f \<longrightarrow> ds = filter (\<lambda>q. node_at f q = None) (prefixes ?dir)
                \<and> (\<forall>q. prefix q ?dir \<longrightarrow> node_at f' q = Some Dir)"
    using w1 pfx by simp
  have frame: "\<forall>q. q \<notin> set ds \<and> q \<noteq> tmp \<and> q \<noteq> target_path \<longrightarrow> node_at f' q = node_at f q"
    using n3 nw n2 n1 by simp
  have h: "trace f' = trace f @ map Mkdir ds
             @ [Create tmp, Write tmp content, Rename tmp target_path]"
    using tr1 tr2 trw tr3 by simp
  from rnd tmp par f0 g dirs wf frame h
  have "\<exists>rnd ds tmp. rnd \<in> set (take tmp_max names)
          \<and> tmp = ?dir @ [stem_of (name_of target_path) @ ''_'' @ rnd @ ''.tmp'']
          \<and> parent tmp = ?dir
          \<and> node_at f tmp = None \<and> node_at f' tmp = None
          \<and> (\<forall>d \<in> set ds. prefix d ?dir \<and> node_at f d = None \<and> node_at f' d = Some Dir)
          \<and> (wf_fs f \<longrightarrow> ds = filter (\<lambda>q. node_at f q = None) (prefixes ?dir)
                \<and> (\<forall>q. prefix q ?dir \<longrightarrow> node_at f' q = Some Dir))
          \<and> (\<forall>q. q \<notin> set ds \<and> q \<noteq> tmp \<and> q \<noteq> target_path \<longrightarrow> node_at f' q = node_at f q)
          \<and> trace f' = trace f @ map Mkdir ds
               @ [Create tmp, Write tmp content, Rename tmp target_path]"
    by blast
  with a b show ?thesis by blast
qed

text \<open>
  Claim C3. \<open>atomic_write_text\<close> returns whenever the target is not the root and not a
  directory, no ancestor of it is a file, and one of the candidate names is free: missing
  directories are no obstacle (\<open>parents=True\<close>), nor is a directory that exists
  (\<open>exist_ok=True\<close>). When it returns, the target holds exactly the content and the
  temporary file of the call is gone. The call's system calls are, in this order: the
  creation of directories, all of them ancestors of the target that did not exist (in a
  well-formed file system: exactly the missing ones, outermost first, after which every
  ancestor is a directory); the exclusive creation of one temporary file in the target's
  own directory (named stem, underscore, random part, \<open>.tmp\<close>, and not present before);
  the write of the whole content to it; one rename of it onto the target. Nothing else in
  the file system changes.
\<close>

theorem atomic_write_text_result:
  "(target_path \<noteq> []
      \<and> (\<forall>q. prefix q (parent target_path) \<longrightarrow> node_at f q = None \<or> node_at f q = Some Dir)
      \<and> node_at f target_path \<noteq> Some Dir
      \<and> (\<exists>n \<in> set (take tmp_max names).
            node_at f (parent target_path @ [stem_of (name_of target_path) @ ''_'' @ n @ ''.tmp''])
              = None)
     \<longrightarrow> (\<exists>f'. atomic_write_text f tmp_max names target_path content = Inr f'))
   \<and> (\<forall>f'. atomic_write_text f tmp_max names target_path content = Inr f' \<longrightarrow>
        node_at f' target_path = Some (File content)
        \<and> node_at f' (parent target_path) = Some Dir
        \<and> (\<exists>rnd ds tmp. rnd \<in> set (take tmp_max names)
             \<and> tmp = parent target_path @ [stem_of (name_of target_path) @ ''_'' @ rnd @ ''.tmp'']
             \<and> parent tmp = parent target_path
             \<and> node_at f tmp = None \<and> node_at f' tmp = None
             \<and> (\<forall>d \<in> set ds. prefix d (parent target_path) \<and> node_at f d = None
                    \<and> node_at f' d = Some Dir)
             \<and> (wf_fs f \<longrightarrow>
                   ds = filter (\<lambda>q. node_at f q = None) (prefixes (parent target_path))
                   \<and> (\<forall>q. prefix q (parent target_path) \<longrightarrow> node_at f' q = Some Dir))
             \<and> (\<forall>q. q \<notin> set ds \<and> q \<noteq> tmp \<and> q \<noteq> target_path \<longrightarrow> node_at f' q = node_at f q)
             \<and> trace f' = trace f @ map Mkdir ds
                  @ [Create tmp, Write tmp content, Rename tmp target_path]))"
proof (intro conjI impI allI)
  assume "target_path \<noteq> []
      \<and> (\<forall>q. prefix q (parent target_path) \<longrightarrow> node_at f q = None \<or> node_at f q = Some Dir)
      \<and> node_at f target_path \<noteq> Some Dir
      \<and> (\<exists>n \<in> set (take tmp_max names).
            node_at f (parent target_path @ [stem_of (name_of target_path) @ ''_'' @ n @ ''.tmp''])
              = None)"
  then show "\<exists>f'. atomic_write_text f tmp_max names target_path content = Inr f'"
    using atomic_write_text_succeeds [of target_path f tmp_max names content] by blast
next
  fix f'
  assume e: "atomic_write_text f tmp_max names target_path content = Inr f'"
  from atomic_write_text_effect [OF e]
  show "node_at f' target_path = Some (File content)" by blast
  from atomic_write_text_effect [OF e]
  show "node_at f' (parent target_path) = Some Dir" by blast
  from atomic_write_text_effect [OF e]
  show "\<exists>rnd ds tmp. rnd \<in> set (take tmp_max names)
             \<and> tmp = parent target_path @ [stem_of (name_of target_path) @ ''_'' @ rnd @ ''.tmp'']
             \<and> parent tmp = parent target_path
             \<and> node_at f tmp = None \<and> node_at f' tmp = None
             \<and> (\<forall>d \<in> set ds. prefix d (parent target_path) \<and> node_at f d = None
                    \<and> node_at f' d = Some Dir)
             \<and> (wf_fs f \<longrightarrow>
                   ds = filter (\<lambda>q. node_at f q = None) (prefixes (parent target_path))
                   \<and> (\<forall>q. prefix q (parent target_path) \<longrightarrow> node_at f' q = Some Dir))
             \<and> (\<forall>q. q \<notin> set ds \<and> q \<noteq> tmp \<and> q \<noteq> target_path \<longrightarrow> node_at f' q = node_at f q)
             \<and> trace f' = trace f @ map Mkdir ds
                  @ [Create tmp, Write tmp content, Rename tmp target_path]"
    by (elim conjE)
qed

lemmas writer_eval =
  node_at_def parent_def name_of_def stem_of_def rfind_dot_def writer_fs_def writer_fs_used_def

theorem atomic_write_text_result_witness:
  "wf_fs writer_fs
   \<and> (\<exists>f'. atomic_write_text writer_fs 238328 [''k3x9q2ab'']
              [''tmp'', ''sky_reports'', ''2026'', ''Fe2O3_fixed-uuid.html'']
              ''<html>ok</html>'' = Inr f'
        \<and> node_at f' [''tmp'', ''sky_reports'', ''2026'', ''Fe2O3_fixed-uuid.html'']
            = Some (File ''<html>ok</html>'')
        \<and> node_at f' [''tmp'', ''sky_reports''] = Some Dir
        \<and> node_at f' [''tmp'', ''sky_reports'', ''2026''] = Some Dir
        \<and> node_at f' [''tmp'', ''sky_reports'', ''2026'', ''Fe2O3_fixed-uuid_k3x9q2ab.tmp'']
            = None
        \<and> trace f' =
            [Mkdir [''tmp'', ''sky_reports''],
             Mkdir [''tmp'', ''sky_reports'', ''2026''],
             Create [''tmp'', ''sky_reports'', ''2026'', ''Fe2O3_fixed-uuid_k3x9q2ab.tmp''],
             Write [''tmp'', ''sky_reports'', ''2026'', ''Fe2O3_fixed-uuid_k3x9q2ab.tmp'']
               ''<html>ok</html>'',
             Rename [''tmp'', ''sky_reports'', ''2026'', ''Fe2O3_fixed-uuid_k3x9q2ab.tmp'']
               [''tmp'', ''sky_reports'', ''2026'', ''Fe2O3_fixed-uuid.html'']])
   \<and> wf_fs writer_fs_used
   \<and> (\<exists>f'. atomic_write_text writer_fs_used 238328 [''k3x9q2ab'', ''m4n8p1zz'']
              [''tmp'', ''sky_reports'', ''Fe2O3_fixed-uuid.html''] ''<html>new</html>'' = Inr f'
        \<and> node_at f' [''tmp'', ''sky_reports'', ''Fe2O3_fixed-uuid.html'']
            = Some (File ''<html>new</html>'')
        \<and> node_at f' [''tmp'', ''sky_reports'', ''Fe2O3_fixed-uuid_k3x9q2ab.tmp'']
            = Some (File [])
        \<and> node_at f' [''tmp'', ''sky_reports'', ''Fe2O3_fixed-uuid_m4n8p1zz.tmp''] = None
        \<and> trace f' =
            [Create [''tmp'', ''sky_reports'', ''Fe2O3_fixed-uuid_m4n8p1zz.tmp''],
             Write [''tmp'', ''sky_reports'', ''Fe2O3_fixed-uuid_m4n8p1zz.tmp'']
               ''<html>new</html>'',
             Rename [''tmp'', ''sky_reports'', ''Fe2O3_fixed-uuid_m4n8p1zz.tmp'']
               [''tmp'', ''sky_reports'', ''Fe2O3_fixed-uuid.html'']])"
proof (intro conjI)
  let ?T = "[''tmp'', ''sky_reports'', ''2026'', ''Fe2O3_fixed-uuid.html'']"
  let ?C = "''<html>ok</html>''"
  let ?tmp = "[''tmp'', ''sky_reports'', ''2026'', ''Fe2O3_fixed-uuid_k3x9q2ab.tmp'']"
  note res = atomic_write_text_result [of ?T writer_fs 238328 "[''k3x9q2ab'']" ?C]
  show wf: "wf_fs writer_fs"
    by (auto simp: wf_fs_def writer_eval split: if_splits)
  have stem: "stem_of (name_of ?T) = ''Fe2O3_fixed-uuid''"
    by (simp add: writer_eval)
  have par: "parent ?T = [''tmp'', ''sky_reports'', ''2026'']"
    by (simp add: parent_def)
  have h1: "?T \<noteq> []" by simp
  have h2: "\<forall>q. prefix q (parent ?T) \<longrightarrow>
              node_at writer_fs q = None \<or> node_at writer_fs q = Some Dir"
    by (simp add: node_at_def writer_fs_def)
  have h3: "node_at writer_fs ?T \<noteq> Some Dir"
    by (simp add: node_at_def writer_fs_def)
  have "node_at writer_fs (parent ?T @ [stem_of (name_of ?T) @ ''_'' @ ''k3x9q2ab'' @ ''.tmp''])
          = None"
    by (simp add: stem par) (simp add: node_at_def writer_fs_def)
  then have h4: "\<exists>n \<in> set (take 238328 [''k3x9q2ab'']).
              node_at writer_fs (parent ?T @ [stem_of (name_of ?T) @ ''_'' @ n @ ''.tmp'']) = None"
    by simp
  from res h1 h2 h3 h4 obtain f' where
    e: "atomic_write_text writer_fs 238328 [''k3x9q2ab''] ?T ?C = Inr f'"
    by blast
  from res e have a: "node_at f' ?T = Some (File ?C)"
    and b: "node_at f' (parent ?T) = Some Dir"
    by blast+
  from res e obtain rnd ds tmp where
    rnd: "rnd \<in> set (take 238328 [''k3x9q2ab''])"
    and tmp: "tmp = parent ?T @ [stem_of (name_of ?T) @ ''_'' @ rnd @ ''.tmp'']"
    and gone: "node_at f' tmp = None"
    and w: "wf_fs writer_fs \<longrightarrow>
              ds = filter (\<lambda>q. node_at writer_fs q = None) (prefixes (parent ?T))
              \<and> (\<forall>q. prefix q (parent ?T) \<longrightarrow> node_at f' q = Some Dir)"
    and tr: "trace f' = trace writer_fs @ map Mkdir ds @ [Create tmp, Write tmp ?C, Rename tmp ?T]"
    by blast
  from rnd have "rnd = ''k3x9q2ab''" by simp
  with tmp have tmp': "tmp = ?tmp" by (simp add: stem par)
  from w wf have ds0: "ds = filter (\<lambda>q. node_at writer_fs q = None) (prefixes (parent ?T))"
    and all: "\<forall>q. prefix q (parent ?T) \<longrightarrow> node_at f' q = Some Dir"
    by blast+
  from ds0 have ds: "ds = [[''tmp'', ''sky_reports''], [''tmp'', ''sky_reports'', ''2026'']]"
    by (simp add: par) (simp add: node_at_def writer_fs_def)
  have "prefix [''tmp'', ''sky_reports''] (parent ?T)" by (simp add: par)
  with all have c: "node_at f' [''tmp'', ''sky_reports''] = Some Dir" by blast
  from b have d: "node_at f' [''tmp'', ''sky_reports'', ''2026''] = Some Dir" by (simp add: par)
  from gone tmp' have g: "node_at f' ?tmp = None" by simp
  from tr ds tmp' have t: "trace f' =
            [Mkdir [''tmp'', ''sky_reports''],
             Mkdir [''tmp'', ''sky_reports'', ''2026''],
             Create ?tmp, Write ?tmp ?C, Rename ?tmp ?T]"
    by (simp add: writer_fs_def)
  from e a c d g t
  show "\<exists>f'. atomic_write_text writer_fs 238328 [''k3x9q2ab''] ?T ?C = Inr f'
        \<and> node_at f' ?T = Some (File ?C)
        \<and> node_at f' [''tmp'', ''sky_reports''] = Some Dir
        \<and> node_at f' [''tmp'', ''sky_reports'', ''2026''] = Some Dir
        \<and> node_at f' ?tmp = None
        \<and> trace f' =
            [Mkdir [''tmp'', ''sky_reports''],
             Mkdir [''tmp'', ''sky_reports'', ''2026''],
             Create ?tmp, Write ?tmp ?C, Rename ?tmp ?T]"
    by blast
next
  let ?T = "[''tmp'', ''sky_reports'', ''Fe2O3_fixed-uuid.html'']"
  let ?C = "''<html>new</html>''"
  let ?stale = "[''tmp'', ''sky_reports'', ''Fe2O3_fixed-uuid_k3x9q2ab.tmp'']"
  let ?tmp = "[''tmp'', ''sky_reports'', ''Fe2O3_fixed-uuid_m4n8p1zz.tmp'']"
  let ?names = "[''k3x9q2ab'', ''m4n8p1zz'']"
  note res = atomic_write_text_result [of ?T writer_fs_used 238328 ?names ?C]
  show wf: "wf_fs writer_fs_used"
    by (auto simp: wf_fs_def writer_eval split: if_splits)
  have stem: "stem_of (name_of ?T) = ''Fe2O3_fixed-uuid''"
    by (simp add: writer_eval)
  have par: "parent ?T = [''tmp'', ''sky_reports'']"
    by (simp add: parent_def)
  have h1: "?T \<noteq> []" by simp
  have h2: "\<forall>q. prefix q (parent ?T) \<longrightarrow>
              node_at writer_fs_used q = None \<or> node_at writer_fs_used q = Some Dir"
    by (auto simp: par prefix_Cons node_at_def writer_fs_used_def)
  have h3: "node_at writer_fs_used ?T \<noteq> Some Dir"
    by (simp add: node_at_def writer_fs_used_def)
  have "node_at writer_fs_used (parent ?T @ [stem_of (name_of ?T) @ ''_'' @ ''m4n8p1zz'' @ ''.tmp''])
          = None"
    by (simp add: stem par) (simp add: node_at_def writer_fs_used_def)
  then have h4: "\<exists>n \<in> set (take 238328 ?names).
      node_at writer_fs_used (parent ?T @ [stem_of (name_of ?T) @ ''_'' @ n @ ''.tmp'']) = None"
    by simp
  from res h1 h2 h3 h4 obtain f' where
    e: "atomic_write_text writer_fs_used 238328 ?names ?T ?C = Inr f'"
    by blast
  from res e have a: "node_at f' ?T = Some (File ?C)"
    by blast
  from res e obtain rnd ds tmp where
    rnd: "rnd \<in> set (take 238328 ?names)"
    and tmp: "tmp = parent ?T @ [stem_of (name_of ?T) @ ''_'' @ rnd @ ''.tmp'']"
    and fresh: "node_at writer_fs_used tmp = None"
    and gone: "node_at f' tmp = None"
    and w: "wf_fs writer_fs_used \<longrightarrow>
              ds = filter (\<lambda>q. node_at writer_fs_used q = None) (prefixes (parent ?T))
              \<and> (\<forall>q. prefix q (parent ?T) \<longrightarrow> node_at f' q = Some Dir)"
    and frame: "\<forall>q. q \<notin> set ds \<and> q \<noteq> tmp \<and> q \<noteq> ?T \<longrightarrow> node_at f' q = node_at writer_fs_used q"
    and tr: "trace f' = trace writer_fs_used @ map Mkdir ds
                          @ [Create tmp, Write tmp ?C, Rename tmp ?T]"
    by blast
  from rnd have "rnd = ''k3x9q2ab'' \<or> rnd = ''m4n8p1zz''" by simp
  moreover have "node_at writer_fs_used ?stale \<noteq> None"
    by (simp add: node_at_def writer_fs_used_def)
  ultimately have "rnd = ''m4n8p1zz''" using tmp fresh by (auto simp: stem par)
  with tmp have tmp': "tmp = ?tmp" by (simp add: stem par)
  from w wf have "ds = filter (\<lambda>q. node_at writer_fs_used q = None) (prefixes (parent ?T))"
    by blast
  then have ds: "ds = []"
    by (simp add: par) (simp add: node_at_def writer_fs_used_def)
  from frame ds tmp' have "node_at f' ?stale = node_at writer_fs_used ?stale" by simp
  then have s: "node_at f' ?stale = Some (File [])"
    by (simp add: node_at_def writer_fs_used_def)
  from gone tmp' have g: "node_at f' ?tmp = None" by simp
  from tr ds tmp' have t: "trace f' = [Create ?tmp, Write ?tmp ?C, Rename ?tmp ?T]"
    by (simp add: writer_fs_used_def)
  from e a s g t
  show "\<exists>f'. atomic_write_text writer_fs_used 238328 ?names ?T ?C = Inr f'
        \<and> node_at f' ?T = Some (File ?C)
        \<and> node_at f' ?stale = Some (File [])
        \<and> node_at f' ?tmp = None
        \<and> trace f' = [Create ?tmp, Write ?tmp ?C, Rename ?tmp ?T]"
    by blast
qed

section \<open>Properties of the tool registry\<close>

lemma register_each_raises:
  "register_each b defs st = Inl e \<Longrightarrow> \<exists>d \<in> set defs. \<exists>st'. register_one b d st' = Inl e"
proof (induction defs arbitrary: st)
  case Nil
  then show ?case by simp
next
  case (Cons d defs)
  show ?case
  proof (cases "register_one b d st")
    case (Inl x)
    with Cons.prems have "x = e" by simp
    with Inl show ?thesis by auto
  next
    case (Inr st')
    with Cons.prems have "register_each b defs st' = Inl e" by simp
    from Cons.IH [OF this] show ?thesis by auto
  qed
qed

lemma register_each_succeeds:
  "\<forall>d \<in> set defs. \<forall>st'. \<exists>st''. register_one b d st' = Inr st'' \<Longrightarrow>
   \<exists>st''. register_each b defs st = Inr st''"
proof (induction defs arbitrary: st)
  case Nil
  then show ?case by simp
next
  case (Cons d defs)
  then obtain st' where a: "register_one b d st = Inr st'" by fastforce
  from Cons.prems have "\<forall>d \<in> set defs. \<forall>st'. \<exists>st''. register_one b d st' = Inr st''"
    by simp
  from Cons.IH [OF this, of st'] a show ?case by simp
qed

lemma register_each_recording_named:
  "register_each (recording True) defs st
     = Inr (st @ map (\<lambda>(name, func, description). (Some (name, description), func)) defs)"
  by (induction defs arbitrary: st) (auto simp: recording_def)

text \<open>
  Claim C8, as the code has it. The registry is the fixed, statically declared list
  \<open>TOOL_DEFS\<close> of descriptors, and the names of its entries are pairwise distinct.
  This uniqueness is not checked at registration time: \<open>_register_tools\<close> is the loop over
  \<open>TOOL_DEFS\<close>, and the loop, on any descriptor list and any backend, raises nothing but
  what the backend's decorator raises on one of the descriptors; where the decorator
  accepts each descriptor the loop completes.
\<close>

theorem registry_names_distinct:
  "distinct (map fst TOOL_DEFS)
   \<and> register_tools b st = register_each b TOOL_DEFS st
   \<and> (register_each b defs st = Inl e \<longrightarrow>
        (\<exists>d \<in> set defs. \<exists>st'. register_one b d st' = Inl e))
   \<and> ((\<forall>d \<in> set defs. \<forall>st'. \<exists>st''. register_one b d st' = Inr st'') \<longrightarrow>
        (\<exists>st''. register_each b defs st = Inr st''))"
proof (intro conjI impI)
  show "distinct (map fst TOOL_DEFS)" by (simp add: TOOL_DEFS_def)
  show "register_tools b st = register_each b TOOL_DEFS st" by (simp add: register_tools_def)
next
  assume "register_each b defs st = Inl e"
  then show "\<exists>d \<in> set defs. \<exists>st'. register_one b d st' = Inl e"
    by (rule register_each_raises)
next
  assume "\<forall>d \<in> set defs. \<forall>st'. \<exists>st''. register_one b d st' = Inr st''"
  then show "\<exists>st''. register_each b defs st = Inr st''"
    by (rule register_each_succeeds)
qed

theorem registry_names_distinct_witness:
  "(\<exists>st''. register_tools (recording True) [] = Inr st'')
   \<and> register_tools (recording True) []
       = Inr (map (\<lambda>(name, func, description). (Some (name, description), func)) TOOL_DEFS)
   \<and> register_each refusing
        [(''read_cif'', ''tools.read_cif'', ''one''),
         (''read_cif'', ''tools.read_cif_path'', ''two'')] []
       = Inl (ValueError ''Tool already exists: read_cif'')
   \<and> (\<exists>d st'. register_one refusing d st' = Inl (ValueError ''Tool already exists: read_cif''))"
proof -
  have a: "\<forall>d \<in> set TOOL_DEFS. \<forall>st'. \<exists>st''. register_one (recording True) d st' = Inr st''"
    by (auto simp: recording_def)
  note t = registry_names_distinct [of "recording True" "[]" TOOL_DEFS]
  from t a have b: "\<exists>st''. register_each (recording True) TOOL_DEFS [] = Inr st''" by blast
  from t have c: "register_tools (recording True) [] = register_each (recording True) TOOL_DEFS []"
    by blast
  have d: "register_each (recording True) TOOL_DEFS []
       = Inr (map (\<lambda>(name, func, description). (Some (name, description), func)) TOOL_DEFS)"
    using register_each_recording_named [of TOOL_DEFS "[]"] by simp
  let ?dup = "[(''read_cif'', ''tools.read_cif'', ''one''),
               (''read_cif'', ''tools.read_cif_path'', ''two'')]"
  let ?e = "ValueError ''Tool already exists: read_cif''"
  have f: "register_each refusing ?dup [] = Inl ?e"
    by (simp add: refusing_def List.map_filter_simps)
  from registry_names_distinct [of refusing "[]" ?dup ?e] f
  have "\<exists>d \<in> set ?dup. \<exists>st'. register_one refusing d st' = Inl ?e" by blast
  then have g: "\<exists>d st'. register_one refusing d st' = Inl ?e" by blast
  from b c d f g show ?thesis by simp
qed

text \<open>The claim as stated fails on its last part. The loop of \<open>_register_tools\<close>, given
  two descriptors with the same name and a backend that accepts what it is given, raises
  nothing and registers both: no check of the names takes place.\<close>

theorem duplicate_names_registered_counterexample:
  "\<not> distinct (map fst [(''read_cif'', ''tools.read_cif'', ''one''),
                         (''read_cif'', ''tools.read_cif_path'', ''two'')])
   \<and> register_each (recording True)
        [(''read_cif'', ''tools.read_cif'', ''one''),
         (''read_cif'', ''tools.read_cif_path'', ''two'')] []
       = Inr [(Some (''read_cif'', ''one''), ''tools.read_cif''),
              (Some (''read_cif'', ''two''), ''tools.read_cif_path'')]"
  by (simp add: recording_def)

end
